theory Spec2Isabelle
  imports Complex_Main
begin

section \<open>JavaScript numbers\<close>

text \<open>
  The functions of \<^verbatim>\<open>src/lib/clustering.ts\<close> compute on JavaScript numbers. A number is
  modelled as an exact real or one of the three special values a division or a square root
  can produce: \<^verbatim>\<open>NaN\<close>, \<^verbatim>\<open>Infinity\<close> and \<^verbatim>\<open>-Infinity\<close>. The arithmetic
  follows IEEE 754 on the special values (\<open>0 / 0\<close>, \<open>Infinity - Infinity\<close> and
  \<open>0 * Infinity\<close> are \<^verbatim>\<open>NaN\<close>; every comparison with \<^verbatim>\<open>NaN\<close> is false) and is
  exact on finite values: rounding and overflow of doubles are not modelled, and the two
  zeros are identified (no divisor of the code is ever \<open>-0\<close>: they are square roots of
  sums of squares, and array lengths).
\<close>

datatype number = Finite real | Infinity | NegInfinity | NaN

fun js_neg :: "number \<Rightarrow> number" where
  "js_neg (Finite a) = Finite (- a)"
| "js_neg Infinity = NegInfinity"
| "js_neg NegInfinity = Infinity"
| "js_neg NaN = NaN"

fun js_add :: "number \<Rightarrow> number \<Rightarrow> number" where
  "js_add (Finite a) (Finite b) = Finite (a + b)"
| "js_add NaN y = NaN"
| "js_add x NaN = NaN"
| "js_add Infinity NegInfinity = NaN"
| "js_add NegInfinity Infinity = NaN"
| "js_add Infinity y = Infinity"
| "js_add x Infinity = Infinity"
| "js_add NegInfinity y = NegInfinity"
| "js_add x NegInfinity = NegInfinity"

definition js_sub :: "number \<Rightarrow> number \<Rightarrow> number" where
  "js_sub x y = js_add x (js_neg y)"

text \<open>The infinity with the sign of \<open>s\<close>; \<^verbatim>\<open>NaN\<close> when \<open>s\<close> is zero.\<close>

fun js_sign_inf :: "real \<Rightarrow> number" where
  "js_sign_inf s = (if s = 0 then NaN else if 0 < s then Infinity else NegInfinity)"

fun js_mul :: "number \<Rightarrow> number \<Rightarrow> number" where
  "js_mul (Finite a) (Finite b) = Finite (a * b)"
| "js_mul NaN y = NaN"
| "js_mul x NaN = NaN"
| "js_mul Infinity (Finite b) = js_sign_inf b"
| "js_mul (Finite a) Infinity = js_sign_inf a"
| "js_mul NegInfinity (Finite b) = js_sign_inf (- b)"
| "js_mul (Finite a) NegInfinity = js_sign_inf (- a)"
| "js_mul Infinity Infinity = Infinity"
| "js_mul NegInfinity NegInfinity = Infinity"
| "js_mul Infinity NegInfinity = NegInfinity"
| "js_mul NegInfinity Infinity = NegInfinity"

fun js_div :: "number \<Rightarrow> number \<Rightarrow> number" where
  "js_div (Finite a) (Finite b) = (if b = 0 then js_sign_inf a else Finite (a / b))"
| "js_div NaN y = NaN"
| "js_div x NaN = NaN"
| "js_div (Finite a) Infinity = Finite 0"
| "js_div (Finite a) NegInfinity = Finite 0"
| "js_div Infinity (Finite b) = (if 0 \<le> b then Infinity else NegInfinity)"
| "js_div NegInfinity (Finite b) = (if 0 \<le> b then NegInfinity else Infinity)"
| "js_div x y = NaN"

fun js_sqrt :: "number \<Rightarrow> number" where
  "js_sqrt (Finite a) = (if a < 0 then NaN else Finite (sqrt a))"
| "js_sqrt Infinity = Infinity"
| "js_sqrt NegInfinity = NaN"
| "js_sqrt NaN = NaN"

fun js_lt :: "number \<Rightarrow> number \<Rightarrow> bool" where
  "js_lt (Finite a) (Finite b) = (a < b)"
| "js_lt NaN y = False"
| "js_lt x NaN = False"
| "js_lt x NegInfinity = False"
| "js_lt Infinity y = False"
| "js_lt NegInfinity y = True"
| "js_lt x Infinity = True"


section \<open>cosineSimilarity\<close>

text \<open>
  \<^verbatim>\<open>
  export function cosineSimilarity(a: number[], b: number[]): number {
    if (a.length !== b.length) return 0;
    let dotProduct = 0; let normA = 0; let normB = 0;
    for (let i = 0; i < a.length; i++) {
      dotProduct += a[i] * b[i];
      normA += a[i] * a[i];
      normB += b[i] * b[i];
    }
    return dotProduct / (Math.sqrt(normA) * Math.sqrt(normB));
  }
  \<close>
  The loop runs over the common index range of two arrays of equal length, so it is the
  simultaneous traversal of both lists, carrying the three accumulators.
\<close>

fun cos_loop :: "number list \<Rightarrow> number list \<Rightarrow> number \<times> number \<times> number \<Rightarrow> number \<times> number \<times> number" where
  "cos_loop (x # xs) (y # ys) (dotProduct, normA, normB) =
     cos_loop xs ys (js_add dotProduct (js_mul x y), js_add normA (js_mul x x), js_add normB (js_mul y y))"
| "cos_loop xs ys acc = acc"

definition cosineSimilarity :: "number list \<Rightarrow> number list \<Rightarrow> number" where
  "cosineSimilarity a b =
     (if length a \<noteq> length b then Finite 0
      else (case cos_loop a b (Finite 0, Finite 0, Finite 0) of
              (dotProduct, normA, normB) \<Rightarrow>
                js_div dotProduct (js_mul (js_sqrt normA) (js_sqrt normB))))"


section \<open>Math.random\<close>

text \<open>
  \<^verbatim>\<open>Math.random()\<close> reads and advances the generator of the JavaScript engine. The
  generator is modelled as the sequence \<open>rnd\<close> of the values its successive calls return,
  and the state as the number \<open>c\<close> of calls made so far: a call returns \<open>rnd c\<close> and
  leaves the state \<open>c + 1\<close>. Functions that draw random numbers take \<open>rnd\<close> and \<open>c\<close>
  and return the new count with their result. The engine promises values in \<open>[0, 1)\<close>.
\<close>

definition unit_source :: "(nat \<Rightarrow> real) \<Rightarrow> bool" where
  "unit_source rnd = (\<forall>i. 0 \<le> rnd i \<and> rnd i < 1)"

section \<open>embedTo3D\<close>

text \<open>
  \<^verbatim>\<open>
  export function embedTo3D(embeddings: number[][]): { x: number; y: number; z: number }[] {
    if (embeddings.length === 0) return [];
    const dim = embeddings[0].length;
    const projection = [
      Array.from({ length: dim }, () => (Math.random() - 0.5) * 2),
      Array.from({ length: dim }, () => (Math.random() - 0.5) * 2),
      Array.from({ length: dim }, () => (Math.random() - 0.5) * 2),
    ];
    return embeddings.map((emb) => {
      const x = emb.reduce((sum, val, i) => sum + val * projection[0][i], 0);
      const y = emb.reduce((sum, val, i) => sum + val * projection[1][i], 0);
      const z = emb.reduce((sum, val, i) => sum + val * projection[2][i], 0);
      return { x: x * 50, y: y * 50, z: z * 50 };
    });
  }
  \<close>
  \<^verbatim>\<open>Array.from\<close> calls its function once per index, in order, so the three rows are
  made of the draws \<open>c .. c + dim - 1\<close>, \<open>c + dim .. c + 2 dim - 1\<close> and
  \<open>c + 2 dim .. c + 3 dim - 1\<close>. (The source's \<^verbatim>\<open>dim\<close> and \<^verbatim>\<open>sum\<close> are constants of
  HOL; they are written \<open>dimension\<close> and \<open>acc\<close>.) The object \<^verbatim>\<open>{x, y, z}\<close> is the
  triple \<open>(x, y, z)\<close>.
\<close>

definition projection_row :: "(nat \<Rightarrow> real) \<Rightarrow> nat \<Rightarrow> nat \<Rightarrow> number list" where
  "projection_row rnd c dimension =
     map (\<lambda>i. js_mul (js_sub (Finite (rnd (c + i))) (Finite (1 / 2))) (Finite 2)) [0..<dimension]"

definition projection :: "(nat \<Rightarrow> real) \<Rightarrow> nat \<Rightarrow> nat \<Rightarrow> number list list" where
  "projection rnd c dimension =
     [projection_row rnd c dimension,
      projection_row rnd (c + dimension) dimension,
      projection_row rnd (c + 2 * dimension) dimension]"

text \<open>
  \<^verbatim>\<open>emb.reduce((sum, val, i) => sum + val * row[i], 0)\<close>: where \<^verbatim>\<open>emb\<close> is longer than
  the row, \<^verbatim>\<open>row[i]\<close> is \<^verbatim>\<open>undefined\<close> and the product is \<^verbatim>\<open>NaN\<close>.
\<close>

fun project_onto :: "number list \<Rightarrow> number list \<Rightarrow> number \<Rightarrow> number" where
  "project_onto [] row acc = acc"
| "project_onto (v # emb) [] acc = project_onto emb [] (js_add acc (js_mul v NaN))"
| "project_onto (v # emb) (p # row) acc = project_onto emb row (js_add acc (js_mul v p))"

definition project3 :: "number list list \<Rightarrow> number list \<Rightarrow> number \<times> number \<times> number" where
  "project3 proj emb =
     (let x = project_onto emb (proj ! 0) (Finite 0);
          y = project_onto emb (proj ! 1) (Finite 0);
          z = project_onto emb (proj ! 2) (Finite 0)
      in (js_mul x (Finite 50), js_mul y (Finite 50), js_mul z (Finite 50)))"

definition embedTo3D ::
  "(nat \<Rightarrow> real) \<Rightarrow> nat \<Rightarrow> number list list \<Rightarrow> (number \<times> number \<times> number) list \<times> nat" where
  "embedTo3D rnd c embeddings =
     (case embeddings of
        [] \<Rightarrow> ([], c)
      | e0 # rest \<Rightarrow>
          (let dimension = length e0;
               proj = projection rnd c dimension
           in (map (project3 proj) embeddings, c + 3 * dimension)))"

text \<open>
  The ingestion route computes the layout with two calls, one after the other:
  \<^verbatim>\<open>
  // Calculate 3D positions
  const positions = embedTo3D(allEmbeddings);
  const centroidPositions = embedTo3D(centroids);
  \<close>
\<close>

definition calculate_positions ::
  "(nat \<Rightarrow> real) \<Rightarrow> nat \<Rightarrow> number list list \<Rightarrow> number list list \<Rightarrow>
     (number \<times> number \<times> number) list \<times> (number \<times> number \<times> number) list \<times> nat" where
  "calculate_positions rnd c allEmbeddings centroids =
     (case embedTo3D rnd c allEmbeddings of
        (positions, c1) \<Rightarrow>
          (case embedTo3D rnd c1 centroids of
             (centroidPositions, c2) \<Rightarrow> (positions, centroidPositions, c2)))"

text \<open>
  Notions the statements below use: the dimension a call works with (the length of the
  first vector, as \<^verbatim>\<open>embeddings[0]?.length || 0\<close> and \<^verbatim>\<open>embeddings[0].length\<close> read
  it), the real entries of a projection row, an all-zero vector, and the origin.
\<close>

definition dimension_of :: "number list list \<Rightarrow> nat" where
  "dimension_of embeddings = (case embeddings of [] \<Rightarrow> 0 | e0 # rest \<Rightarrow> length e0)"




section \<open>kMeansClustering\<close>

text \<open>
  \<^verbatim>\<open>
  export function kMeansClustering(embeddings: number[][], k: number,
      maxIterations: number = 100): { clusters: number[]; centroids: number[][] } {
    const n = embeddings.length;
    const dim = embeddings[0]?.length || 0;
    if (n === 0 || dim === 0) { return { clusters: [], centroids: [] }; }
    ...
  \<close>
  The cluster count \<open>k\<close> and the iteration bound are natural numbers (the ingestion route
  passes \<^verbatim>\<open>Math.min(Math.max(Math.ceil(n / 20), 5), 50)\<close> and the default bound). The
  only exception the function can raise is the \<^verbatim>\<open>TypeError\<close> of spreading
  \<^verbatim>\<open>embeddings[idx]\<close> when it is \<^verbatim>\<open>undefined\<close>. (The other two exceptions are
  those of \<^verbatim>\<open>src/lib/openai.ts\<close>: the \<^verbatim>\<open>SyntaxError\<close> of \<^verbatim>\<open>JSON.parse\<close> and a
  failure of the provider call.)
\<close>

datatype error = TypeError | SyntaxError | APIError

text \<open>
  \<^verbatim>\<open>
  do { idx = Math.floor(Math.random() * n); } while (usedIndices.has(idx));
  \<close>
  The loop has no bound of its own: it ends when the random source yields an index that is
  not in the set, and runs forever if it never does (the value \<open>None\<close>). A JavaScript
  \<^verbatim>\<open>Set\<close> keeps its elements in insertion order; it is the list of the indices added.
\<close>

partial_function (option) sample_index ::
  "(nat \<Rightarrow> real) \<Rightarrow> nat \<Rightarrow> nat \<Rightarrow> int list \<Rightarrow> (int \<times> nat) option" where
  "sample_index rnd c n usedIndices =
     (let idx = \<lfloor>rnd c * real n\<rfloor>
      in if idx \<in> set usedIndices then sample_index rnd (Suc c) n usedIndices
         else Some (idx, Suc c))"

text \<open>
  \<^verbatim>\<open>
  let centroids: number[][] = [];
  const usedIndices = new Set<number>();
  for (let i = 0; i < Math.min(k, n); i++) {
    let idx: number;
    do { ... } while (usedIndices.has(idx));
    usedIndices.add(idx);
    centroids.push([...embeddings[idx]]);
  }
  \<close>
  The counter of the \<^verbatim>\<open>for\<close> loop is carried as the number of rounds that remain.
\<close>

fun init_centroids ::
  "(nat \<Rightarrow> real) \<Rightarrow> nat \<Rightarrow> number list list \<Rightarrow> nat \<Rightarrow> int list \<Rightarrow> number list list \<Rightarrow>
     (error + number list list \<times> int list \<times> nat) option" where
  "init_centroids rnd c embeddings 0 usedIndices centroids = Some (Inr (centroids, usedIndices, c))"
| "init_centroids rnd c embeddings (Suc remaining) usedIndices centroids =
     (case sample_index rnd c (length embeddings) usedIndices of
        None \<Rightarrow> None
      | Some (idx, c') \<Rightarrow>
          if 0 \<le> idx \<and> idx < int (length embeddings)
          then init_centroids rnd c' embeddings remaining (usedIndices @ [idx])
                 (centroids @ [embeddings ! nat idx])
          else Some (Inl TypeError))"

text \<open>
  \<^verbatim>\<open>
  const newClusters = embeddings.map((emb) => {
    let minDist = Infinity;
    let nearest = 0;
    centroids.forEach((cent, i) => {
      const sim = cosineSimilarity(emb, cent);
      const dist = 1 - sim;
      if (dist < minDist) { minDist = dist; nearest = i; }
    });
    return nearest;
  });
  const changed = newClusters.some((c, i) => c !== clusters[i]);
  \<close>
\<close>

fun nearest_loop :: "number list \<Rightarrow> number list list \<Rightarrow> nat \<Rightarrow> number \<times> nat \<Rightarrow> number \<times> nat" where
  "nearest_loop emb [] i (minDist, nearest) = (minDist, nearest)"
| "nearest_loop emb (cent # cents) i (minDist, nearest) =
     (let sim = cosineSimilarity emb cent;
          dist = js_sub (Finite 1) sim
      in if js_lt dist minDist then nearest_loop emb cents (Suc i) (dist, i)
         else nearest_loop emb cents (Suc i) (minDist, nearest))"

definition nearest_centroid :: "number list list \<Rightarrow> number list \<Rightarrow> nat" where
  "nearest_centroid centroids emb = snd (nearest_loop emb centroids 0 (Infinity, 0))"

definition assign_clusters :: "number list list \<Rightarrow> number list list \<Rightarrow> nat list" where
  "assign_clusters centroids embeddings = map (nearest_centroid centroids) embeddings"

definition changed :: "nat list \<Rightarrow> nat list \<Rightarrow> bool" where
  "changed newClusters clusters =
     list_ex (\<lambda>i. newClusters ! i \<noteq> clusters ! i) [0..<length newClusters]"

text \<open>
  \<^verbatim>\<open>
  centroids = centroids.map((_, ci) => {
    const clusterPoints = embeddings.filter((_, i) => clusters[i] === ci);
    if (clusterPoints.length === 0) return centroids[ci];
    const newCentroid = new Array(dim).fill(0);
    clusterPoints.forEach((point) => {
      point.forEach((val, i) => { newCentroid[i] += val; });
    });
    return newCentroid.map((val) => val / clusterPoints.length);
  });
  \<close>
  Where a point is longer than \<^verbatim>\<open>newCentroid\<close>, \<^verbatim>\<open>newCentroid[i]\<close> is
  \<^verbatim>\<open>undefined\<close>, the sum is \<^verbatim>\<open>NaN\<close> and the assignment extends the array by one
  element (the indices come in increasing order).
\<close>

fun add_point :: "number list \<Rightarrow> number list \<Rightarrow> number list" where
  "add_point newCentroid [] = newCentroid"
| "add_point [] (v # point) = js_add NaN v # add_point [] point"
| "add_point (s # newCentroid) (v # point) = js_add s v # add_point newCentroid point"

definition cluster_points :: "number list list \<Rightarrow> nat list \<Rightarrow> nat \<Rightarrow> number list list" where
  "cluster_points embeddings clusters ci =
     map fst (filter (\<lambda>(emb, cl). cl = ci) (zip embeddings clusters))"

definition update_centroid ::
  "number list list \<Rightarrow> nat list \<Rightarrow> nat \<Rightarrow> number list list \<Rightarrow> nat \<Rightarrow> number list" where
  "update_centroid embeddings clusters dimension centroids ci =
     (let clusterPoints = cluster_points embeddings clusters ci
      in if length clusterPoints = 0 then centroids ! ci
         else (let newCentroid =
                     fold (\<lambda>point nc. add_point nc point) clusterPoints
                       (replicate dimension (Finite 0))
               in map (\<lambda>v. js_div v (Finite (real (length clusterPoints)))) newCentroid))"

definition update_centroids ::
  "number list list \<Rightarrow> nat list \<Rightarrow> nat \<Rightarrow> number list list \<Rightarrow> number list list" where
  "update_centroids embeddings clusters dimension centroids =
     map (update_centroid embeddings clusters dimension centroids) [0..<length centroids]"

text \<open>
  \<^verbatim>\<open>
  let clusters = new Array(n).fill(0);
  for (let iter = 0; iter < maxIterations; iter++) {
    const newClusters = ...;
    const changed = ...;
    clusters = newClusters;
    if (!changed) break;
    centroids = ...;
  }
  return { clusters, centroids };
  \<close>
  The loop is a recursion on the number of iterations that remain. Next to the two arrays
  it returns the number of iterations it started, which the source does not return: the
  statements about the iteration bound are about this number.
\<close>

fun kmeans_loop ::
  "number list list \<Rightarrow> nat \<Rightarrow> nat \<Rightarrow> nat list \<Rightarrow> number list list \<Rightarrow>
     nat list \<times> number list list \<times> nat" where
  "kmeans_loop embeddings dimension 0 clusters centroids = (clusters, centroids, 0)"
| "kmeans_loop embeddings dimension (Suc remaining) clusters centroids =
     (let newClusters = assign_clusters centroids embeddings
      in if \<not> changed newClusters clusters then (newClusters, centroids, 1)
         else (case kmeans_loop embeddings dimension remaining newClusters
                      (update_centroids embeddings newClusters dimension centroids) of
                 (clusters', centroids', iterations) \<Rightarrow> (clusters', centroids', Suc iterations)))"

text \<open>
  The result is \<open>None\<close> when the sampling loop never ends, \<open>Some (Inl e)\<close> when the
  call raises \<open>e\<close>, and otherwise \<open>Some (Inr ((clusters, centroids), iterations, c'))\<close>:
  the returned object as a pair, the number of iterations started, and the state of the
  random source after the call.
\<close>

definition kMeansClustering ::
  "(nat \<Rightarrow> real) \<Rightarrow> nat \<Rightarrow> number list list \<Rightarrow> nat \<Rightarrow> nat \<Rightarrow>
     (error + (nat list \<times> number list list) \<times> nat \<times> nat) option" where
  "kMeansClustering rnd c embeddings k maxIterations =
     (let n = length embeddings;
          dimension = dimension_of embeddings
      in if n = 0 \<or> dimension = 0 then Some (Inr (([], []), 0, c))
         else (case init_centroids rnd c embeddings (min k n) [] [] of
                 None \<Rightarrow> None
               | Some (Inl e) \<Rightarrow> Some (Inl e)
               | Some (Inr (centroids0, usedIndices, c')) \<Rightarrow>
                   (case kmeans_loop embeddings dimension maxIterations (replicate n 0) centroids0 of
                      (clusters, centroids, iterations) \<Rightarrow>
                        Some (Inr ((clusters, centroids), iterations, c')))))"

text \<open>
  The states the loop goes through, for the statements about its iterations: one full pass
  (assignment, then centroid update) from a state, the state after \<open>j\<close> full passes from
  the initial one, and the test the loop makes at a state (no vector changes its cluster).
\<close>

definition kmeans_step ::
  "number list list \<Rightarrow> nat list \<times> number list list \<Rightarrow> nat list \<times> number list list" where
  "kmeans_step embeddings st =
     (case st of (clusters, centroids) \<Rightarrow>
        (let newClusters = assign_clusters centroids embeddings
         in (newClusters,
             update_centroids embeddings newClusters (dimension_of embeddings) centroids)))"

definition kmeans_state ::
  "number list list \<Rightarrow> number list list \<Rightarrow> nat \<Rightarrow> nat list \<times> number list list" where
  "kmeans_state embeddings centroids0 j =
     ((kmeans_step embeddings) ^^ j) (replicate (length embeddings) 0, centroids0)"

definition converged :: "number list list \<Rightarrow> nat list \<times> number list list \<Rightarrow> bool" where
  "converged embeddings st =
     (case st of (clusters, centroids) \<Rightarrow>
        \<not> changed (assign_clusters centroids embeddings) clusters)"

text \<open>
  A random source is fair for \<open>n\<close> when every index below \<open>n\<close> is drawn again after
  every point of the sequence; the sampling loop then ends.
\<close>

definition fair_source :: "(nat \<Rightarrow> real) \<Rightarrow> nat \<Rightarrow> bool" where
  "fair_source rnd n = (\<forall>i<n. \<forall>c. \<exists>j\<ge>c. \<lfloor>rnd j * real n\<rfloor> = int i)"

text \<open>A vector of \<open>d\<close> finite numbers: not empty when \<open>0 < d\<close>, and free of \<^verbatim>\<open>NaN\<close>.\<close>

fun is_finite :: "number \<Rightarrow> bool" where
  "is_finite (Finite r) = True"
| "is_finite x = False"

definition finite_vector :: "nat \<Rightarrow> number list \<Rightarrow> bool" where
  "finite_vector d v = (length v = d \<and> list_all is_finite v)"

section \<open>generateClusterLabel\<close>

text \<open>
  \<^verbatim>\<open>src/lib/openai.ts\<close>:
  \<^verbatim>\<open>
  export async function generateClusterLabel(postContents: string[])
      : Promise<{ name: string; description: string }> {
    const samplePosts = postContents.slice(0, 10).join("\n---\n");
    const response = await openai.chat.completions.create({ ... content: samplePosts ... });
    try {
      const result = JSON.parse(response.choices[0].message.content || "{}");
      return { name: result.name || "Uncategorized", description: result.description || "" };
    } catch {
      return { name: "Uncategorized", description: "" };
    }
  }
  \<close>
  The provider call and \<^verbatim>\<open>JSON.parse\<close> are not code of the repository; they are
  parameters of the model. The provider maps the user message to a failure (the promise
  rejects) or to the list of the \<^verbatim>\<open>choices[i].message.content\<close> of its response
  (\<open>None\<close> for \<^verbatim>\<open>null\<close>); \<open>parse\<close> maps a text to the value \<^verbatim>\<open>JSON.parse\<close> returns,
  or to \<open>None\<close> where it throws a \<^verbatim>\<open>SyntaxError\<close>. The values of JSON:
\<close>

datatype json =
    JNull
  | JBool bool
  | JNumber real
  | JString string
  | JArray "json list"
  | JObject "(string \<times> json) list"

text \<open>
  Reading the property \<^verbatim>\<open>name\<close> or \<^verbatim>\<open>description\<close> of a parsed value: a
  \<^verbatim>\<open>TypeError\<close> on \<^verbatim>\<open>null\<close>; the member of an object (the last one, where a key is
  repeated) or \<^verbatim>\<open>undefined\<close> (\<open>None\<close>); \<^verbatim>\<open>undefined\<close> on a boolean, a number, a string
  or an array, whose prototypes have neither property.
\<close>

fun get_property :: "json \<Rightarrow> string \<Rightarrow> error + json option" where
  "get_property JNull key = Inl TypeError"
| "get_property (JObject members) key = Inr (map_of (rev members) key)"
| "get_property v key = Inr None"

text \<open>\<^verbatim>\<open>v || d\<close>: the value \<open>v\<close> when it is truthy, the default otherwise.\<close>

fun truthy :: "json option \<Rightarrow> bool" where
  "truthy None = False"
| "truthy (Some JNull) = False"
| "truthy (Some (JBool b)) = b"
| "truthy (Some (JNumber r)) = (r \<noteq> 0)"
| "truthy (Some (JString s)) = (s \<noteq> [])"
| "truthy (Some (JArray vs)) = True"
| "truthy (Some (JObject members)) = True"

definition or_default :: "json option \<Rightarrow> string \<Rightarrow> json" where
  "or_default v d = (case v of None \<Rightarrow> JString d | Some x \<Rightarrow> if truthy v then x else JString d)"

definition content_text :: "string option \<Rightarrow> string" where
  "content_text content = (case content of None \<Rightarrow> ''{}'' | Some s \<Rightarrow> if s = [] then ''{}'' else s)"

text \<open>\<^verbatim>\<open>postContents.slice(0, 10).join("\n---\n")\<close>\<close>

fun join :: "string \<Rightarrow> string list \<Rightarrow> string" where
  "join sep [] = []"
| "join sep [s] = s"
| "join sep (s # rest) = s @ sep @ join sep rest"

definition samplePosts :: "string list \<Rightarrow> string" where
  "samplePosts postContents = join ([CHR 0x0A] @ ''---'' @ [CHR 0x0A]) (take 10 postContents)"

text \<open>
  The body of the \<^verbatim>\<open>try\<close> block, with the exception it raises as a value, and the
  function: a failure of the provider call is outside the \<^verbatim>\<open>try\<close> and propagates;
  every exception of the block is caught. The returned object is the pair
  \<open>(name, description)\<close>; at run time its fields hold whatever the parsed value held.
\<close>

definition try_label :: "(string \<Rightarrow> json option) \<Rightarrow> string option list \<Rightarrow> error + json \<times> json" where
  "try_label parse choices =
     (case choices of
        [] \<Rightarrow> Inl TypeError
      | content # others \<Rightarrow>
          (case parse (content_text content) of
             None \<Rightarrow> Inl SyntaxError
           | Some result \<Rightarrow>
               (case get_property result ''name'' of
                  Inl e \<Rightarrow> Inl e
                | Inr name \<Rightarrow>
                    (case get_property result ''description'' of
                       Inl e \<Rightarrow> Inl e
                     | Inr description \<Rightarrow>
                         Inr (or_default name ''Uncategorized'', or_default description [])))))"

definition generateClusterLabel ::
  "(string \<Rightarrow> error + string option list) \<Rightarrow> (string \<Rightarrow> json option) \<Rightarrow> string list \<Rightarrow>
     error + json \<times> json" where
  "generateClusterLabel provider parse postContents =
     (case provider (samplePosts postContents) of
        Inl e \<Rightarrow> Inl e
      | Inr choices \<Rightarrow>
          (case try_label parse choices of
             Inl e \<Rightarrow> Inr (JString ''Uncategorized'', JString [])
           | Inr label \<Rightarrow> Inr label))"

text \<open>
  What the system prompt asks the provider for (\<^verbatim>\<open>Return JSON with: name ...,
  description ...\<close>): an object with a string \<^verbatim>\<open>name\<close> and a string
  \<^verbatim>\<open>description\<close>. And a parsed value that offers neither a name nor a description: not
  an object, or an object in which both are missing or falsy.
\<close>

definition well_formed :: "json \<Rightarrow> bool" where
  "well_formed v =
     (case v of
        JObject members \<Rightarrow>
          (case (map_of (rev members) ''name'', map_of (rev members) ''description'') of
             (Some (JString n), Some (JString d)) \<Rightarrow> True
           | _ \<Rightarrow> False)
      | _ \<Rightarrow> False)"

definition unusable :: "json \<Rightarrow> bool" where
  "unusable v =
     (case v of
        JObject members \<Rightarrow>
          \<not> truthy (map_of (rev members) ''name'') \<and> \<not> truthy (map_of (rev members) ''description'')
      | _ \<Rightarrow> True)"

section \<open>kMeansClustering on a store of arrays\<close>

text \<open>
  Whether a call changes its input depends on which arrays are shared, so the function is
  modelled a second time on an explicit store. The store holds the arrays of numbers
  (\<^verbatim>\<open>number[]\<close>: the embedding and centroid vectors) and the arrays of such arrays
  (\<^verbatim>\<open>number[][]\<close>: \<^verbatim>\<open>embeddings\<close>, \<^verbatim>\<open>centroids\<close>, \<^verbatim>\<open>clusterPoints\<close>); a reference is
  an address, the index of the array in its list, and an array of arrays holds the addresses
  of its elements. Allocation appends to the list. The assignment arrays (\<^verbatim>\<open>clusters\<close>,
  \<^verbatim>\<open>newClusters\<close>) and the seen-set hold numbers only and are created inside the call by
  \<^verbatim>\<open>new Array(n).fill(0)\<close>, \<^verbatim>\<open>embeddings.map\<close> and \<^verbatim>\<open>new Set\<close>; they stay values.
\<close>

record store =
  vecs :: "number list list"
  arrs :: "nat list list"

text \<open>
  The operations of the source on arrays: an array literal, a spread copy,
  \<^verbatim>\<open>new Array(dim).fill(0)\<close> or the result of \<^verbatim>\<open>map\<close> and \<^verbatim>\<open>filter\<close> is a new array;
  \<^verbatim>\<open>centroids.push(x)\<close> and \<^verbatim>\<open>newCentroid[i] += val\<close> write into the array the
  reference points to. (\<^verbatim>\<open>forEach\<close> hands out the indices in increasing order, so the
  index of \<^verbatim>\<open>+=\<close> is at most the length of the array; at the length the array grows by
  the element \<^verbatim>\<open>undefined + val\<close>.)
\<close>

definition new_vec :: "number list \<Rightarrow> store \<Rightarrow> nat \<times> store" where
  "new_vec v s = (length (vecs s), s\<lparr>vecs := vecs s @ [v]\<rparr>)"

definition new_arr :: "nat list \<Rightarrow> store \<Rightarrow> nat \<times> store" where
  "new_arr a s = (length (arrs s), s\<lparr>arrs := arrs s @ [a]\<rparr>)"

definition array_push :: "nat \<Rightarrow> nat \<Rightarrow> store \<Rightarrow> store" where
  "array_push a x s = s\<lparr>arrs := (arrs s)[a := arrs s ! a @ [x]]\<rparr>"

definition plus_assign :: "number list \<Rightarrow> nat \<Rightarrow> number \<Rightarrow> number list" where
  "plus_assign v i val = (if i < length v then v[i := js_add (v ! i) val] else v @ [js_add NaN val])"

definition add_at :: "nat \<Rightarrow> nat \<Rightarrow> number \<Rightarrow> store \<Rightarrow> store" where
  "add_at a i val s = s\<lparr>vecs := (vecs s)[a := plus_assign (vecs s ! a) i val]\<rparr>"

text \<open>The vectors an array of arrays holds.\<close>

definition vectors_of :: "store \<Rightarrow> nat \<Rightarrow> number list list" where
  "vectors_of s a = map (\<lambda>p. vecs s ! p) (arrs s ! a)"

text \<open>
  The initialisation loop: \<^verbatim>\<open>centroids.push([...embeddings[idx]])\<close> reads the vector at
  \<^verbatim>\<open>embeddings[idx]\<close>, allocates a copy and pushes its address.
\<close>

fun init_centroids_st ::
  "(nat \<Rightarrow> real) \<Rightarrow> nat \<Rightarrow> store \<Rightarrow> nat \<Rightarrow> nat \<Rightarrow> nat \<Rightarrow> int list \<Rightarrow>
     (error + int list \<times> nat \<times> store) option" where
  "init_centroids_st rnd c s embeddings centroids 0 usedIndices = Some (Inr (usedIndices, c, s))"
| "init_centroids_st rnd c s embeddings centroids (Suc remaining) usedIndices =
     (case sample_index rnd c (length (arrs s ! embeddings)) usedIndices of
        None \<Rightarrow> None
      | Some (idx, c') \<Rightarrow>
          if 0 \<le> idx \<and> idx < int (length (arrs s ! embeddings))
          then (case new_vec (vecs s ! (arrs s ! embeddings ! nat idx)) s of
                  (copy, s1) \<Rightarrow>
                    init_centroids_st rnd c' (array_push centroids copy s1) embeddings centroids
                      remaining (usedIndices @ [idx]))
          else Some (Inl TypeError))"

text \<open>
  The centroid update. \<^verbatim>\<open>point.forEach((val, i) => { newCentroid[i] += val; })\<close> reads
  each element of the point from the store as it is at that step. An empty cluster returns
  \<^verbatim>\<open>centroids[ci]\<close>, the address of the previous centroid; \<^verbatim>\<open>centroids.map\<close> calls its
  function for \<open>ci = 0, 1, ...\<close> in order and collects the addresses in a new array.
\<close>

definition accumulate_point :: "nat \<Rightarrow> nat \<Rightarrow> store \<Rightarrow> store" where
  "accumulate_point newCentroid point s =
     fold (\<lambda>i st. add_at newCentroid i (vecs st ! point ! i) st) [0..<length (vecs s ! point)] s"

definition update_centroid_st ::
  "store \<Rightarrow> nat \<Rightarrow> nat list \<Rightarrow> nat \<Rightarrow> nat \<Rightarrow> nat \<Rightarrow> nat \<times> store" where
  "update_centroid_st s embeddings clusters dimension centroids ci =
     (case new_arr (map fst (filter (\<lambda>(p, cl). cl = ci) (zip (arrs s ! embeddings) clusters))) s of
        (clusterPoints, s1) \<Rightarrow>
          if length (arrs s1 ! clusterPoints) = 0 then (arrs s1 ! centroids ! ci, s1)
          else (case new_vec (replicate dimension (Finite 0)) s1 of
                  (newCentroid, s2) \<Rightarrow>
                    (let s3 = fold (accumulate_point newCentroid) (arrs s2 ! clusterPoints) s2
                     in new_vec (map (\<lambda>v. js_div v (Finite (real (length (arrs s3 ! clusterPoints)))))
                                   (vecs s3 ! newCentroid)) s3)))"

fun map_update_st ::
  "store \<Rightarrow> nat \<Rightarrow> nat list \<Rightarrow> nat \<Rightarrow> nat \<Rightarrow> nat list \<Rightarrow> nat list \<times> store" where
  "map_update_st s embeddings clusters dimension centroids [] = ([], s)"
| "map_update_st s embeddings clusters dimension centroids (ci # others) =
     (case update_centroid_st s embeddings clusters dimension centroids ci of
        (a, s1) \<Rightarrow>
          (case map_update_st s1 embeddings clusters dimension centroids others of
             (rest, s2) \<Rightarrow> (a # rest, s2)))"

definition update_centroids_st ::
  "store \<Rightarrow> nat \<Rightarrow> nat list \<Rightarrow> nat \<Rightarrow> nat \<Rightarrow> nat \<times> store" where
  "update_centroids_st s embeddings clusters dimension centroids =
     (case map_update_st s embeddings clusters dimension centroids
             [0..<length (arrs s ! centroids)] of
        (addrs, s1) \<Rightarrow> new_arr addrs s1)"

text \<open>The loop and the function, as before, with the store threaded through.\<close>

fun kmeans_loop_st ::
  "store \<Rightarrow> nat \<Rightarrow> nat \<Rightarrow> nat \<Rightarrow> nat list \<Rightarrow> nat \<Rightarrow> (nat list \<times> nat \<times> nat) \<times> store" where
  "kmeans_loop_st s embeddings dimension 0 clusters centroids = ((clusters, centroids, 0), s)"
| "kmeans_loop_st s embeddings dimension (Suc remaining) clusters centroids =
     (let newClusters = assign_clusters (vectors_of s centroids) (vectors_of s embeddings)
      in if \<not> changed newClusters clusters then ((newClusters, centroids, 1), s)
         else (case update_centroids_st s embeddings newClusters dimension centroids of
                 (centroids', s1) \<Rightarrow>
                   (case kmeans_loop_st s1 embeddings dimension remaining newClusters centroids' of
                      ((clusters', centroids'', iterations), s2) \<Rightarrow>
                        ((clusters', centroids'', Suc iterations), s2))))"

definition kMeansClustering_st ::
  "(nat \<Rightarrow> real) \<Rightarrow> nat \<Rightarrow> store \<Rightarrow> nat \<Rightarrow> nat \<Rightarrow> nat \<Rightarrow>
     (error + (nat list \<times> nat) \<times> nat \<times> nat \<times> store) option" where
  "kMeansClustering_st rnd c s embeddings k maxIterations =
     (let n = length (arrs s ! embeddings);
          dimension = dimension_of (vectors_of s embeddings)
      in case new_arr [] s of
           (centroids, s1) \<Rightarrow>
             if n = 0 \<or> dimension = 0 then Some (Inr (([], centroids), 0, c, s1))
             else (case init_centroids_st rnd c s1 embeddings centroids (min k n) [] of
                     None \<Rightarrow> None
                   | Some (Inl e) \<Rightarrow> Some (Inl e)
                   | Some (Inr (usedIndices, c', s2)) \<Rightarrow>
                       (case kmeans_loop_st s2 embeddings dimension maxIterations
                               (replicate n 0) centroids of
                          ((clusters, centroids', iterations), s3) \<Rightarrow>
                            Some (Inr ((clusters, centroids'), iterations, c', s3)))))"

text \<open>
  The frame conditions. A list extends another when it only has more elements at its end;
  a store is preserved when both its lists are extended: every array that existed is still
  there, at its address, with its contents. An array of arrays is valid when it and its
  elements exist. The centroids are fresh with respect to an earlier store when none of
  their vectors existed in it.
\<close>

definition extends :: "'a list \<Rightarrow> 'a list \<Rightarrow> bool" where
  "extends old new = (\<exists>added. new = old @ added)"

definition preserved :: "store \<Rightarrow> store \<Rightarrow> bool" where
  "preserved s0 s = (extends (vecs s0) (vecs s) \<and> extends (arrs s0) (arrs s))"

definition valid_array :: "store \<Rightarrow> nat \<Rightarrow> bool" where
  "valid_array s a = (a < length (arrs s) \<and> list_all (\<lambda>p. p < length (vecs s)) (arrs s ! a))"

definition fresh_centroids :: "store \<Rightarrow> store \<Rightarrow> nat \<Rightarrow> bool" where
  "fresh_centroids s0 s centroids =
     (centroids < length (arrs s) \<and> list_all (\<lambda>p. length (vecs s0) \<le> p) (arrs s ! centroids))"

definition empty_store :: store where
  "empty_store = \<lparr>vecs = [], arrs = []\<rparr>"

section \<open>Properties of cosineSimilarity\<close>
















section \<open>Properties of embedTo3D\<close>









lemma embedTo3D_map:
  "embedTo3D rnd c embeddings =
     (map (project3 (projection rnd c (dimension_of embeddings))) embeddings,
      c + 3 * dimension_of embeddings)"
  by (cases embeddings) (simp_all add: embedTo3D_def dimension_of_def Let_def)





lemma basis_row_eq_iff:
  "projection_row rnd c d = projection_row rnd c' d \<longleftrightarrow> (\<forall>i<d. rnd (c + i) = rnd (c' + i))"
  by (auto simp add: projection_row_def js_sub_def)

lemma three_ranges:
  "(\<forall>i<d. P i) \<and> (\<forall>i<d. P (d + i)) \<and> (\<forall>i<d. P (2 * d + i)) \<longleftrightarrow> (\<forall>i<3 * d. P (i::nat))"
proof
  assume h: "(\<forall>i<d. P i) \<and> (\<forall>i<d. P (d + i)) \<and> (\<forall>i<d. P (2 * d + i))"
  show "\<forall>i<3 * d. P i"
  proof (intro allI impI)
    fix i assume i: "i < 3 * d"
    consider "i < d" | "d \<le> i" "i < 2 * d" | "2 * d \<le> i" by linarith
    then show "P i"
    proof cases
      case 1
      with h show ?thesis by blast
    next
      case 2
      then have "i - d < d" and "i = d + (i - d)" by simp_all
      with h show ?thesis by metis
    next
      case 3
      with i have "i - 2 * d < d" and "i = 2 * d + (i - 2 * d)" by simp_all
      with h show ?thesis by metis
    qed
  qed
next
  assume "\<forall>i<3 * d. P i"
  then show "(\<forall>i<d. P i) \<and> (\<forall>i<d. P (d + i)) \<and> (\<forall>i<d. P (2 * d + i))" by simp
qed

lemma projection_eq_iff:
  "projection rnd c d = projection rnd c' d \<longleftrightarrow> (\<forall>i<3 * d. rnd (c + i) = rnd (c' + i))"
proof -
  have "projection rnd c d = projection rnd c' d \<longleftrightarrow>
          (\<forall>i<d. rnd (c + i) = rnd (c' + i)) \<and>
          (\<forall>i<d. rnd (c + (d + i)) = rnd (c' + (d + i))) \<and>
          (\<forall>i<d. rnd (c + (2 * d + i)) = rnd (c' + (2 * d + i)))"
    by (simp add: projection_def basis_row_eq_iff add.assoc)
  also have "\<dots> \<longleftrightarrow> (\<forall>i<3 * d. rnd (c + i) = rnd (c' + i))"
    by (rule three_ranges [of d "\<lambda>i. rnd (c + i) = rnd (c' + i)"])
  finally show ?thesis .
qed

text \<open>
  C1, as the claim states it, fails: each call of embedTo3D draws its own basis. With the
  random source \<open>1/2, 1/3, 1/4, ...\<close> the same vector \<open>[1]\<close>, once as the only item and
  once as the only centroid, is projected by two different bases to two different points.
\<close>

theorem calculate_positions_fresh_basis_counterexample:
  "projection (\<lambda>i. 1 / (real i + 2)) 0 1 \<noteq> projection (\<lambda>i. 1 / (real i + 2)) 3 1 \<and>
   calculate_positions (\<lambda>i. 1 / (real i + 2)) 0 [[Finite 1]] [[Finite 1]] =
     ([(Finite 0, Finite (- (50 / 3)), Finite (- 25))],
      [(Finite (- 30), Finite (- (100 / 3)), Finite (- (250 / 7)))], 6)"
  by (simp add: calculate_positions_def embedTo3D_def projection_def projection_row_def
      project3_def js_sub_def)

text \<open>
  C1 (amended): within one ingestion run the item positions are projected by the basis made
  of the first \<open>3 * dim\<close> random draws of the layout step, and the centroid positions by a
  second basis made of the draws that follow them; the two bases (for one dimension \<open>d\<close>)
  are the same exactly when the random source repeats each of the first \<open>3 * d\<close> draws
  \<open>3 * d\<close> draws later.
\<close>

theorem calculate_positions_separate_bases:
  "calculate_positions rnd c allEmbeddings centroids =
     (map (project3 (projection rnd c (dimension_of allEmbeddings))) allEmbeddings,
      map (project3 (projection rnd (c + 3 * dimension_of allEmbeddings) (dimension_of centroids)))
        centroids,
      c + 3 * dimension_of allEmbeddings + 3 * dimension_of centroids) \<and>
   (projection rnd c d = projection rnd (c + 3 * d) d \<longleftrightarrow>
      (\<forall>i<3 * d. rnd (c + i) = rnd (c + 3 * d + i)))"
  by (simp add: calculate_positions_def embedTo3D_map projection_eq_iff)

theorem calculate_positions_separate_bases_witness:
  "calculate_positions (\<lambda>i. 1 / (real i + 2)) 0 [[Finite 1]] [[Finite 1]] =
     (map (project3 (projection (\<lambda>i. 1 / (real i + 2)) 0 1)) [[Finite 1]],
      map (project3 (projection (\<lambda>i. 1 / (real i + 2)) 3 1)) [[Finite 1]], 6) \<and>
   projection (\<lambda>i. 1 / (real i + 2)) 0 1 \<noteq> projection (\<lambda>i. 1 / (real i + 2)) (0 + 3 * 1) 1"
proof -
  let ?f = "\<lambda>i::nat. 1 / (real i + 2)"
  note t = calculate_positions_separate_bases [of ?f 0 "[[Finite 1]]" "[[Finite 1]]" 1]
  have "\<not> (\<forall>i<3 * 1. ?f (0 + i) = ?f (0 + 3 * 1 + i))"
    by (simp add: exI [of _ 0])
  with t have "projection ?f 0 1 \<noteq> projection ?f (0 + 3 * 1) 1" by blast
  moreover from t have "calculate_positions ?f 0 [[Finite 1]] [[Finite 1]] =
     (map (project3 (projection ?f 0 1)) [[Finite 1]],
      map (project3 (projection ?f 3 1)) [[Finite 1]], 6)"
    by (simp add: dimension_of_def)
  ultimately show ?thesis by blast
qed

section \<open>Properties of kMeansClustering\<close>

lemma nearest_loop_index:
  "snd (nearest_loop emb cents i (m, nr)) = nr \<or>
   (i \<le> snd (nearest_loop emb cents i (m, nr)) \<and> snd (nearest_loop emb cents i (m, nr)) < i + length cents)"
proof (induction cents arbitrary: i m nr)
  case Nil
  then show ?case by simp
next
  case (Cons cent cents)
  let ?dist = "js_sub (Finite 1) (cosineSimilarity emb cent)"
  show ?case
  proof (cases "js_lt ?dist m")
    case True
    with Cons [of "Suc i" ?dist i] show ?thesis by (auto simp add: Let_def)
  next
    case False
    with Cons [of "Suc i" m nr] show ?thesis by (auto simp add: Let_def)
  qed
qed

lemma nearest_centroid_less:
  "centroids \<noteq> [] \<Longrightarrow> nearest_centroid centroids emb < length centroids"
  using nearest_loop_index [of emb centroids 0 Infinity 0]
  by (auto simp add: nearest_centroid_def)

lemma nearest_centroid_empty: "nearest_centroid [] emb = 0"
  by (simp add: nearest_centroid_def)

lemma length_assign_clusters: "length (assign_clusters centroids embeddings) = length embeddings"
  by (simp add: assign_clusters_def)

lemma assign_clusters_less:
  "centroids \<noteq> [] \<Longrightarrow> x \<in> set (assign_clusters centroids embeddings) \<Longrightarrow> x < length centroids"
  by (auto simp add: assign_clusters_def nearest_centroid_less)

lemma length_update_centroids:
  "length (update_centroids embeddings clusters dimension centroids) = length centroids"
  by (simp add: update_centroids_def)

lemma changed_iff:
  "changed newClusters clusters \<longleftrightarrow> (\<exists>i<length newClusters. newClusters ! i \<noteq> clusters ! i)"
  by (auto simp add: changed_def list_ex_iff)

lemma not_changed_eq:
  "length newClusters = length clusters \<Longrightarrow> \<not> changed newClusters clusters \<longleftrightarrow> newClusters = clusters"
  by (auto simp add: changed_iff list_eq_iff_nth_eq)

lemma kmeans_loop_shape:
  "kmeans_loop embeddings dimension m clusters centroids = (clusters', centroids', iterations) \<Longrightarrow>
   iterations \<le> m \<and> length centroids' = length centroids \<and>
   (length clusters = length embeddings \<longrightarrow> length clusters' = length embeddings) \<and>
   (centroids \<noteq> [] \<and> (\<forall>x\<in>set clusters. x < length centroids) \<longrightarrow>
      (\<forall>x\<in>set clusters'. x < length centroids))"
proof (induction m arbitrary: clusters centroids clusters' centroids' iterations)
  case 0
  then show ?case by auto
next
  case (Suc m)
  let ?new = "assign_clusters centroids embeddings"
  show ?case
  proof (cases "changed ?new clusters")
    case False
    with Suc.prems show ?thesis
      by (auto simp add: Let_def length_assign_clusters assign_clusters_less)
  next
    case True
    let ?ce = "update_centroids embeddings ?new dimension centroids"
    obtain cl2 ce2 it2 where r: "kmeans_loop embeddings dimension m ?new ?ce = (cl2, ce2, it2)"
      by (metis prod_cases3)
    with True Suc.prems have e: "clusters' = cl2" "centroids' = ce2" "iterations = Suc it2"
      by (simp_all add: Let_def)
    from Suc.IH [OF r] have ih: "it2 \<le> m" "length ce2 = length ?ce"
      "length ?new = length embeddings \<longrightarrow> length cl2 = length embeddings"
      "?ce \<noteq> [] \<and> (\<forall>x\<in>set ?new. x < length ?ce) \<longrightarrow> (\<forall>x\<in>set cl2. x < length ?ce)"
      by blast+
    have len: "length ?ce = length centroids" by (rule length_update_centroids)
    have ne: "centroids \<noteq> [] \<Longrightarrow> ?ce \<noteq> []" using len by auto
    show ?thesis
      using ih e len ne by (auto simp add: length_assign_clusters assign_clusters_less)
  qed
qed


lemma kmeans_loop_Suc:
  "kmeans_loop embeddings dimension (Suc m) clusters centroids =
     (if converged embeddings (clusters, centroids)
      then (assign_clusters centroids embeddings, centroids, 1)
      else (case kmeans_loop embeddings dimension m (assign_clusters centroids embeddings)
                   (update_centroids embeddings (assign_clusters centroids embeddings) dimension centroids) of
              (clusters', centroids', iterations) \<Rightarrow> (clusters', centroids', Suc iterations)))"
  by (simp add: converged_def Let_def)

lemma kmeans_step_funpow:
  "(kmeans_step embeddings ^^ j) (kmeans_step embeddings st) = (kmeans_step embeddings ^^ Suc j) st"
  by (simp add: funpow_swap1)

lemma kmeans_loop_trace:
  "kmeans_loop embeddings (dimension_of embeddings) m clusters centroids = (clusters', centroids', iterations) \<Longrightarrow>
   (\<forall>j. Suc j < iterations \<longrightarrow>
      \<not> converged embeddings ((kmeans_step embeddings ^^ j) (clusters, centroids))) \<and>
   (iterations < m \<longrightarrow>
      0 < iterations \<and>
      converged embeddings ((kmeans_step embeddings ^^ (iterations - 1)) (clusters, centroids))) \<and>
   (if 0 < iterations \<and>
       converged embeddings ((kmeans_step embeddings ^^ (iterations - 1)) (clusters, centroids))
    then centroids' = snd ((kmeans_step embeddings ^^ (iterations - 1)) (clusters, centroids)) \<and>
         clusters' = assign_clusters centroids' embeddings
    else (clusters', centroids') = (kmeans_step embeddings ^^ iterations) (clusters, centroids))"
proof (induction m arbitrary: clusters centroids clusters' centroids' iterations)
  case 0
  then show ?case by auto
next
  case (Suc m)
  let ?s = "(clusters, centroids)"
  let ?new = "assign_clusters centroids embeddings"
  let ?ce = "update_centroids embeddings ?new (dimension_of embeddings) centroids"
  show ?case
  proof (cases "converged embeddings ?s")
    case True
    with Suc.prems [unfolded kmeans_loop_Suc]
    have "clusters' = ?new" "centroids' = centroids" "iterations = 1"
      by auto
    with True show ?thesis by simp
  next
    case False
    obtain cl2 ce2 it2 where
      r: "kmeans_loop embeddings (dimension_of embeddings) m ?new ?ce = (cl2, ce2, it2)"
      by (metis prod_cases3)
    with False Suc.prems [unfolded kmeans_loop_Suc]
    have e: "clusters' = cl2" "centroids' = ce2" "iterations = Suc it2"
      by simp_all
    have step: "kmeans_step embeddings ?s = (?new, ?ce)"
      by (simp add: kmeans_step_def Let_def)
    note ih = Suc.IH [OF r, folded step, unfolded kmeans_step_funpow]
    have a: "\<forall>j. Suc j < iterations \<longrightarrow> \<not> converged embeddings ((kmeans_step embeddings ^^ j) ?s)"
    proof (intro allI impI)
      fix j assume j: "Suc j < iterations"
      show "\<not> converged embeddings ((kmeans_step embeddings ^^ j) ?s)"
      proof (cases j)
        case 0
        with False show ?thesis by simp
      next
        case (Suc j')
        with j e have "Suc j' < it2" by simp
        with ih Suc show ?thesis by blast
      qed
    qed
    have b: "iterations < Suc m \<longrightarrow> 0 < iterations \<and>
        converged embeddings ((kmeans_step embeddings ^^ (iterations - 1)) ?s)"
    proof
      assume "iterations < Suc m"
      with e have lt: "it2 < m" by simp
      with ih have "0 < it2" and c: "converged embeddings ((kmeans_step embeddings ^^ Suc (it2 - 1)) ?s)"
        by blast+
      then have "Suc (it2 - 1) = iterations - 1" using e by simp
      with c e show "0 < iterations \<and>
        converged embeddings ((kmeans_step embeddings ^^ (iterations - 1)) ?s)" by simp
    qed
    have c: "if 0 < iterations \<and>
       converged embeddings ((kmeans_step embeddings ^^ (iterations - 1)) ?s)
      then centroids' = snd ((kmeans_step embeddings ^^ (iterations - 1)) ?s) \<and>
         clusters' = assign_clusters centroids' embeddings
      else (clusters', centroids') = (kmeans_step embeddings ^^ iterations) ?s"
    proof (cases "it2")
      case 0
      with ih have "(cl2, ce2) = kmeans_step embeddings ?s" by simp
      with 0 e False show ?thesis by simp
    next
      case (Suc i)
      with ih e show ?thesis by (simp split: if_splits)
    qed
    from a b c show ?thesis by blast
  qed
qed

lemma sample_index_terminates:
  "c \<le> j \<Longrightarrow> \<lfloor>rnd j * real n\<rfloor> \<notin> set usedIndices \<Longrightarrow>
   \<exists>idx c'. sample_index rnd c n usedIndices = Some (idx, c') \<and> idx \<notin> set usedIndices \<and>
     c < c' \<and> idx = \<lfloor>rnd (c' - 1) * real n\<rfloor>"
proof (induction "j - c" arbitrary: c)
  case 0
  then have "c = j" by simp
  with 0 show ?case
    by (subst sample_index.simps) (simp add: Let_def)
next
  case (Suc d)
  show ?case
  proof (cases "\<lfloor>rnd c * real n\<rfloor> \<in> set usedIndices")
    case False
    then show ?thesis
      by (subst sample_index.simps) (simp add: Let_def)
  next
    case True
    from Suc have "d = j - Suc c" "Suc c \<le> j" by simp_all
    from Suc.hyps(1) [OF this Suc.prems(2)] obtain idx c' where
      "sample_index rnd (Suc c) n usedIndices = Some (idx, c')" "idx \<notin> set usedIndices"
      "Suc c < c'" "idx = \<lfloor>rnd (c' - 1) * real n\<rfloor>" by blast
    with True show ?thesis
      by (subst sample_index.simps) (simp add: Let_def)
  qed
qed

lemma unused_index_exists:
  assumes "length usedIndices < n"
  shows "\<exists>i<n. int i \<notin> set usedIndices"
proof (rule ccontr)
  assume "\<not> (\<exists>i<n. int i \<notin> set usedIndices)"
  then have "int ` {..<n} \<subseteq> set usedIndices" by auto
  then have "card (int ` {..<n}) \<le> card (set usedIndices)"
    by (intro card_mono) auto
  moreover have "card (int ` {..<n}) = n"
    by (simp add: card_image)
  moreover have "card (set usedIndices) \<le> length usedIndices" by (rule card_length)
  ultimately show False using assms by simp
qed

lemma random_index_range:
  assumes "unit_source rnd" "0 < n"
  shows "0 \<le> \<lfloor>rnd j * real n\<rfloor> \<and> \<lfloor>rnd j * real n\<rfloor> < int n"
proof -
  from assms have r: "0 \<le> rnd j" "rnd j < 1" by (simp_all add: unit_source_def)
  then have "0 \<le> rnd j * real n" by simp
  moreover from r assms have "rnd j * real n < real n" by simp
  ultimately show ?thesis by (simp add: floor_less_iff)
qed

lemma init_centroids_returns:
  assumes "unit_source rnd" "fair_source rnd (length embeddings)"
  shows "distinct usedIndices \<Longrightarrow> length usedIndices + m \<le> length embeddings \<Longrightarrow>
   \<exists>new c'. init_centroids rnd c embeddings m usedIndices centroids =
       Some (Inr (centroids @ map (\<lambda>i. embeddings ! nat i) new, usedIndices @ new, c')) \<and>
     distinct (usedIndices @ new) \<and> length new = m \<and> c \<le> c' \<and>
     (\<forall>i\<in>set new. 0 \<le> i \<and> i < int (length embeddings) \<and>
        (\<exists>j. c \<le> j \<and> j < c' \<and> i = \<lfloor>rnd j * real (length embeddings)\<rfloor>))"
proof (induction m arbitrary: c usedIndices centroids)
  case 0
  show ?case by (rule exI [of _ "[]"]) (use 0 in simp)
next
  case (Suc m)
  let ?n = "length embeddings"
  from Suc.prems have lt: "length usedIndices < ?n" by simp
  then have n: "0 < ?n" by linarith
  from unused_index_exists [OF lt] obtain i where i: "i < ?n" "int i \<notin> set usedIndices" by blast
  from assms(2) i(1) obtain j where j: "c \<le> j" "\<lfloor>rnd j * real ?n\<rfloor> = int i"
    unfolding fair_source_def by blast
  with i have "\<lfloor>rnd j * real ?n\<rfloor> \<notin> set usedIndices" by simp
  from sample_index_terminates [of c j rnd ?n usedIndices, OF j(1) this] obtain idx c1 where
    s: "sample_index rnd c ?n usedIndices = Some (idx, c1)" "idx \<notin> set usedIndices"
      "c < c1" "idx = \<lfloor>rnd (c1 - 1) * real ?n\<rfloor>" by blast
  from random_index_range [OF assms(1) n] s(4) have rng: "0 \<le> idx" "idx < int ?n" by simp_all
  have d: "distinct (usedIndices @ [idx])" using Suc.prems s(2) by simp
  have l: "length (usedIndices @ [idx]) + m \<le> ?n" using Suc.prems by simp
  from Suc.IH [OF d l, of c1 "centroids @ [embeddings ! nat idx]"] obtain new c' where
    ih: "init_centroids rnd c1 embeddings m (usedIndices @ [idx]) (centroids @ [embeddings ! nat idx]) =
       Some (Inr ((centroids @ [embeddings ! nat idx]) @ map (\<lambda>i. embeddings ! nat i) new,
                  (usedIndices @ [idx]) @ new, c'))"
      "distinct ((usedIndices @ [idx]) @ new)" "length new = m" "c1 \<le> c'"
      "\<forall>i\<in>set new. 0 \<le> i \<and> i < int ?n \<and> (\<exists>j. c1 \<le> j \<and> j < c' \<and> i = \<lfloor>rnd j * real ?n\<rfloor>)"
    by blast
  have own: "\<exists>j. c \<le> j \<and> j < c' \<and> idx = \<lfloor>rnd j * real ?n\<rfloor>"
    using s(3,4) ih(4) by (intro exI [of _ "c1 - 1"]) auto
  have rest: "\<forall>i\<in>set new. \<exists>j. c \<le> j \<and> j < c' \<and> i = \<lfloor>rnd j * real ?n\<rfloor>"
    using ih(5) s(3) by (meson le_trans less_imp_le_nat)
  show ?case
    apply (rule exI [of _ "idx # new"], rule exI [of _ c'])
    using s ih rng own rest by auto
qed


lemma kMeansClustering_runs:
  assumes "embeddings \<noteq> []" "0 < dimension_of embeddings"
    and "unit_source rnd" "fair_source rnd (length embeddings)"
  shows "\<exists>usedIndices c' clusters centroids iterations.
     init_centroids rnd c embeddings (min k (length embeddings)) [] [] =
       Some (Inr (map (\<lambda>i. embeddings ! nat i) usedIndices, usedIndices, c')) \<and>
     distinct usedIndices \<and> length usedIndices = min k (length embeddings) \<and>
     (\<forall>i\<in>set usedIndices. 0 \<le> i \<and> i < int (length embeddings) \<and>
        (\<exists>j. c \<le> j \<and> j < c' \<and> i = \<lfloor>rnd j * real (length embeddings)\<rfloor>)) \<and>
     kmeans_loop embeddings (dimension_of embeddings) maxIterations
         (replicate (length embeddings) 0) (map (\<lambda>i. embeddings ! nat i) usedIndices) =
       (clusters, centroids, iterations) \<and>
     kMeansClustering rnd c embeddings k maxIterations =
       Some (Inr ((clusters, centroids), iterations, c'))"
proof -
  let ?n = "length embeddings"
  have "distinct ([]::int list)" "length ([]::int list) + min k ?n \<le> ?n" by simp_all
  from init_centroids_returns [OF assms(3,4) this, of c "[]"] obtain new c' where
    i: "init_centroids rnd c embeddings (min k ?n) [] [] =
          Some (Inr (map (\<lambda>i. embeddings ! nat i) new, new, c'))"
      "distinct new" "length new = min k ?n"
      "\<forall>i\<in>set new. 0 \<le> i \<and> i < int ?n \<and> (\<exists>j. c \<le> j \<and> j < c' \<and> i = \<lfloor>rnd j * real ?n\<rfloor>)"
    by auto
  obtain clusters centroids iterations where
    l: "kmeans_loop embeddings (dimension_of embeddings) maxIterations (replicate ?n 0)
          (map (\<lambda>i. embeddings ! nat i) new) = (clusters, centroids, iterations)"
    by (metis prod_cases3)
  have "kMeansClustering rnd c embeddings k maxIterations =
       Some (Inr ((clusters, centroids), iterations, c'))"
    using assms(1,2) i(1) l by (simp add: kMeansClustering_def Let_def)
  with i l show ?thesis by blast
qed

lemma kmeans_state_0:
  "kmeans_state embeddings centroids0 0 = (replicate (length embeddings) 0, centroids0)"
  by (simp add: kmeans_state_def)

text \<open>
  C3, as the claim states it, fails on two inputs it covers. On the one-element list of the
  zero-dimension vector with \<open>k = 1\<close> the guard returns an empty assignment, whose length
  is not the input size. With \<open>k = 0\<close> the assignment is all zeros, which are not in
  \<open>[0, 0)\<close>.
\<close>

theorem kMeansClustering_degenerate_counterexample:
  "kMeansClustering (\<lambda>i. 0) 0 [[]] 1 100 = Some (Inr (([], []), 0, 0)) \<and>
   kMeansClustering (\<lambda>i. 0) 0 [[Finite 1]] 0 100 = Some (Inr (([0], []), 1, 0))"
  by (simp add: kMeansClustering_def dimension_of_def assign_clusters_def nearest_centroid_def
      changed_def eval_nat_numeral)

text \<open>
  C3 (amended): for every non-empty list of vectors whose first vector is not empty, every
  \<open>k \<ge> 1\<close> and every iteration bound, with a random source that yields values in
  \<open>[0, 1)\<close> and is fair, kMeansClustering returns without error; the loop starts at most
  \<open>maxIterations\<close> iterations; it stops at the first iteration in which no vector changes
  its cluster (every earlier iteration saw a change, and it stops before the bound only on
  such an iteration), and otherwise runs to the bound; the assignment has the length of the
  input and its values are all in \<open>[0, k)\<close>.
\<close>

theorem kMeansClustering_terminates:
  assumes "embeddings \<noteq> []" "0 < dimension_of embeddings" "0 < k"
    and "unit_source rnd" "fair_source rnd (length embeddings)"
  shows "\<exists>clusters centroids iterations c' centroids0 usedIndices.
     init_centroids rnd c embeddings (min k (length embeddings)) [] [] =
       Some (Inr (centroids0, usedIndices, c')) \<and>
     kMeansClustering rnd c embeddings k maxIterations =
       Some (Inr ((clusters, centroids), iterations, c')) \<and>
     iterations \<le> maxIterations \<and>
     length clusters = length embeddings \<and>
     (\<forall>x\<in>set clusters. x < k) \<and>
     (\<forall>j. Suc j < iterations \<longrightarrow> \<not> converged embeddings (kmeans_state embeddings centroids0 j)) \<and>
     (iterations < maxIterations \<longrightarrow>
        0 < iterations \<and> converged embeddings (kmeans_state embeddings centroids0 (iterations - 1))) \<and>
     (if 0 < iterations \<and> converged embeddings (kmeans_state embeddings centroids0 (iterations - 1))
      then centroids = snd (kmeans_state embeddings centroids0 (iterations - 1)) \<and>
           clusters = assign_clusters centroids embeddings
      else (clusters, centroids) = kmeans_state embeddings centroids0 iterations)"
proof -
  let ?n = "length embeddings"
  from kMeansClustering_runs [OF assms(1,2,4,5), of c k maxIterations]
  obtain usedIndices c' clusters centroids iterations where
    r: "init_centroids rnd c embeddings (min k ?n) [] [] =
          Some (Inr (map (\<lambda>i. embeddings ! nat i) usedIndices, usedIndices, c'))"
      "length usedIndices = min k ?n"
      "kmeans_loop embeddings (dimension_of embeddings) maxIterations (replicate ?n 0)
          (map (\<lambda>i. embeddings ! nat i) usedIndices) = (clusters, centroids, iterations)"
      "kMeansClustering rnd c embeddings k maxIterations =
          Some (Inr ((clusters, centroids), iterations, c'))"
    by blast
  let ?c0 = "map (\<lambda>i. embeddings ! nat i) usedIndices"
  have pos: "0 < min k ?n" using assms(1,3) by simp
  with r(2) have "0 < length ?c0" by simp
  then have ne: "?c0 \<noteq> []" by (simp del: length_map)
  have init: "\<forall>x\<in>set (replicate ?n (0::nat)). x < length ?c0" using pos r(2) by simp
  from kmeans_loop_shape [OF r(3)] ne init
  have shape: "iterations \<le> maxIterations" "length clusters = ?n"
    "\<forall>x\<in>set clusters. x < length ?c0" by auto
  then have lt: "\<forall>x\<in>set clusters. x < k" using r(2) by auto
  note tr = kmeans_loop_trace [OF r(3), folded kmeans_state_def]
  from r(1) r(4) shape(1,2) lt tr show ?thesis by blast
qed


lemma alternating_source:
  "unit_source (\<lambda>i. real (i mod 2) / 2) \<and> fair_source (\<lambda>i. real (i mod 2) / 2) 2"
proof
  show "unit_source (\<lambda>i. real (i mod 2) / 2)"
    unfolding unit_source_def
  proof (intro allI conjI)
    fix i :: nat
    show "0 \<le> real (i mod 2) / 2" by simp
    have "i mod 2 < 2" by simp
    then show "real (i mod 2) / 2 < 1" by simp
  qed
next
  show "fair_source (\<lambda>i. real (i mod 2) / 2) 2"
    unfolding fair_source_def
  proof (intro allI impI)
    fix i c :: nat assume "i < 2"
    then have "(2 * c + i) mod 2 = i" by simp
    then have "c \<le> 2 * c + i \<and> \<lfloor>real ((2 * c + i) mod 2) / 2 * real 2\<rfloor> = int i" by simp
    then show "\<exists>j\<ge>c. \<lfloor>real (j mod 2) / 2 * real 2\<rfloor> = int i" by blast
  qed
qed

theorem kMeansClustering_terminates_witness:
  "\<exists>clusters centroids iterations c' centroids0 usedIndices.
     init_centroids (\<lambda>i. real (i mod 2) / 2) 0 [[Finite 1], [Finite 2]]
         (min 2 (length [[Finite 1], [Finite 2]])) [] [] =
       Some (Inr (centroids0, usedIndices, c')) \<and>
     kMeansClustering (\<lambda>i. real (i mod 2) / 2) 0 [[Finite 1], [Finite 2]] 2 100 =
       Some (Inr ((clusters, centroids), iterations, c')) \<and>
     iterations \<le> 100 \<and>
     length clusters = length [[Finite 1], [Finite 2]] \<and>
     (\<forall>x\<in>set clusters. x < 2) \<and>
     (\<forall>j. Suc j < iterations \<longrightarrow>
        \<not> converged [[Finite 1], [Finite 2]] (kmeans_state [[Finite 1], [Finite 2]] centroids0 j)) \<and>
     (iterations < 100 \<longrightarrow>
        0 < iterations \<and>
        converged [[Finite 1], [Finite 2]]
          (kmeans_state [[Finite 1], [Finite 2]] centroids0 (iterations - 1))) \<and>
     (if 0 < iterations \<and>
         converged [[Finite 1], [Finite 2]]
           (kmeans_state [[Finite 1], [Finite 2]] centroids0 (iterations - 1))
      then centroids = snd (kmeans_state [[Finite 1], [Finite 2]] centroids0 (iterations - 1)) \<and>
           clusters = assign_clusters centroids [[Finite 1], [Finite 2]]
      else (clusters, centroids) = kmeans_state [[Finite 1], [Finite 2]] centroids0 iterations)"
proof -
  have 1: "[[Finite 1], [Finite 2]] \<noteq> []" by simp
  have 2: "0 < dimension_of [[Finite 1], [Finite 2]]" by (simp add: dimension_of_def)
  have 3: "0 < (2::nat)" by simp
  have len: "length [[Finite 1], [Finite 2]] = 2" by simp
  have 4: "unit_source (\<lambda>i. real (i mod 2) / 2)"
    using alternating_source by (rule conjunct1)
  have 5: "fair_source (\<lambda>i. real (i mod 2) / 2) (length [[Finite 1], [Finite 2]])"
    unfolding len using alternating_source by (rule conjunct2)
  show ?thesis by (rule kMeansClustering_terminates [OF 1 2 3 4 5])
qed

text \<open>
  C5: past the guard for empty input, the initial centroids are the input vectors at
  \<open>min k n\<close> pairwise distinct indices, each drawn from the random source (and each in
  range), in the order of the seen-set; the returned centroid list has \<open>min k n\<close> entries,
  indexed from \<open>0\<close>.
\<close>

theorem kMeansClustering_initial_centroids:
  assumes "embeddings \<noteq> []" "0 < dimension_of embeddings"
    and "unit_source rnd" "fair_source rnd (length embeddings)"
  shows "\<exists>usedIndices c' clusters centroids iterations.
     init_centroids rnd c embeddings (min k (length embeddings)) [] [] =
       Some (Inr (map (\<lambda>i. embeddings ! nat i) usedIndices, usedIndices, c')) \<and>
     distinct usedIndices \<and> length usedIndices = min k (length embeddings) \<and>
     (\<forall>i\<in>set usedIndices. 0 \<le> i \<and> i < int (length embeddings) \<and>
        (\<exists>j. c \<le> j \<and> j < c' \<and> i = \<lfloor>rnd j * real (length embeddings)\<rfloor>)) \<and>
     kMeansClustering rnd c embeddings k maxIterations =
       Some (Inr ((clusters, centroids), iterations, c')) \<and>
     length centroids = min k (length embeddings)"
proof -
  from kMeansClustering_runs [OF assms, of c k maxIterations]
  obtain usedIndices c' clusters centroids iterations where
    r: "init_centroids rnd c embeddings (min k (length embeddings)) [] [] =
          Some (Inr (map (\<lambda>i. embeddings ! nat i) usedIndices, usedIndices, c'))"
      "distinct usedIndices" "length usedIndices = min k (length embeddings)"
      "\<forall>i\<in>set usedIndices. 0 \<le> i \<and> i < int (length embeddings) \<and>
        (\<exists>j. c \<le> j \<and> j < c' \<and> i = \<lfloor>rnd j * real (length embeddings)\<rfloor>)"
      "kmeans_loop embeddings (dimension_of embeddings) maxIterations
          (replicate (length embeddings) 0) (map (\<lambda>i. embeddings ! nat i) usedIndices) =
        (clusters, centroids, iterations)"
      "kMeansClustering rnd c embeddings k maxIterations =
          Some (Inr ((clusters, centroids), iterations, c'))"
    by blast
  from kmeans_loop_shape [OF r(5)] r(3)
  have "length centroids = min k (length embeddings)" by simp
  with r show ?thesis by blast
qed

theorem kMeansClustering_initial_centroids_witness:
  "\<exists>usedIndices c' clusters centroids iterations.
     init_centroids (\<lambda>i. real (i mod 2) / 2) 0 [[Finite 1], [Finite 2]]
         (min 5 (length [[Finite 1], [Finite 2]])) [] [] =
       Some (Inr (map (\<lambda>i. [[Finite 1], [Finite 2]] ! nat i) usedIndices, usedIndices, c')) \<and>
     distinct usedIndices \<and> length usedIndices = min 5 (length [[Finite 1], [Finite 2]]) \<and>
     (\<forall>i\<in>set usedIndices. 0 \<le> i \<and> i < int (length [[Finite 1], [Finite 2]]) \<and>
        (\<exists>j. 0 \<le> j \<and> j < c' \<and>
           i = \<lfloor>real (j mod 2) / 2 * real (length [[Finite 1], [Finite 2]])\<rfloor>)) \<and>
     kMeansClustering (\<lambda>i. real (i mod 2) / 2) 0 [[Finite 1], [Finite 2]] 5 100 =
       Some (Inr ((clusters, centroids), iterations, c')) \<and>
     length centroids = min 5 (length [[Finite 1], [Finite 2]])"
proof -
  have 1: "[[Finite 1], [Finite 2]] \<noteq> []" by simp
  have 2: "0 < dimension_of [[Finite 1], [Finite 2]]" by (simp add: dimension_of_def)
  have len: "length [[Finite 1], [Finite 2]] = 2" by simp
  have 4: "unit_source (\<lambda>i. real (i mod 2) / 2)"
    using alternating_source by (rule conjunct1)
  have 5: "fair_source (\<lambda>i. real (i mod 2) / 2) (length [[Finite 1], [Finite 2]])"
    unfolding len using alternating_source by (rule conjunct2)
  show ?thesis by (rule kMeansClustering_initial_centroids [OF 1 2 4 5])
qed

text \<open>
  C6: on the empty list, and on a list whose dimension (the length of its first vector) is
  zero, kMeansClustering returns empty clusters and empty centroids, draws nothing from the
  random source, and raises no error; embedTo3D on the empty list returns the empty list.
\<close>

theorem empty_input_safety:
  "kMeansClustering rnd c [] k maxIterations = Some (Inr (([], []), 0, c)) \<and>
   (dimension_of embeddings = 0 \<longrightarrow>
      kMeansClustering rnd c embeddings k maxIterations = Some (Inr (([], []), 0, c))) \<and>
   embedTo3D rnd c [] = ([], c)"
  by (simp add: kMeansClustering_def embedTo3D_def dimension_of_def)

theorem empty_input_safety_witness:
  "kMeansClustering (\<lambda>i. 0) 0 [] 5 100 = Some (Inr (([], []), 0, 0)) \<and>
   kMeansClustering (\<lambda>i. 0) 0 [[], []] 5 100 = Some (Inr (([], []), 0, 0)) \<and>
   embedTo3D (\<lambda>i. 0) 0 [] = ([], 0)"
proof -
  have "dimension_of [[], []] = 0" by (simp add: dimension_of_def)
  with empty_input_safety [of "\<lambda>i. 0" 0 5 100 "[[], []]"] show ?thesis by blast
qed

lemma finite_vector_add_point:
  "finite_vector d acc \<Longrightarrow> finite_vector d p \<Longrightarrow> finite_vector d (add_point acc p)"
proof (induction acc p arbitrary: d rule: add_point.induct)
  case (1 newCentroid)
  then show ?case by simp
next
  case (2 v point)
  then show ?case by (simp add: finite_vector_def)
next
  case (3 s newCentroid v point)
  from 3 obtain d' where d: "d = Suc d'" by (cases d) (auto simp add: finite_vector_def)
  from "3.prems" have "finite_vector d' newCentroid" "finite_vector d' point"
    and "is_finite s" "is_finite v"
    by (simp_all add: finite_vector_def d)
  with "3.IH" [of d'] show ?case
    by (cases s; cases v) (simp_all add: finite_vector_def d)
qed

lemma finite_vector_fold_add:
  "\<forall>p\<in>set pts. finite_vector d p \<Longrightarrow> finite_vector d acc \<Longrightarrow>
   finite_vector d (fold (\<lambda>point nc. add_point nc point) pts acc)"
  by (induction pts arbitrary: acc) (simp_all add: finite_vector_add_point)

lemma finite_vector_zero: "finite_vector d (replicate d (Finite 0))"
  by (simp add: finite_vector_def list_all_iff)

lemma is_finite_div: "is_finite x \<Longrightarrow> 0 < n \<Longrightarrow> is_finite (js_div x (Finite (real n)))"
  by (cases x) simp_all

lemma finite_vector_mean:
  "finite_vector d v \<Longrightarrow> 0 < n \<Longrightarrow>
   finite_vector d (map (\<lambda>x. js_div x (Finite (real n))) v)"
  by (simp add: finite_vector_def list_all_iff is_finite_div)

lemma cluster_points_subset: "set (cluster_points embeddings clusters ci) \<subseteq> set embeddings"
  by (auto simp add: cluster_points_def dest: set_zip_leftD)

lemma cluster_points_empty:
  "\<forall>i. i < length embeddings \<and> i < length clusters \<longrightarrow> clusters ! i \<noteq> ci \<Longrightarrow>
   cluster_points embeddings clusters ci = []"
  by (auto simp add: cluster_points_def filter_empty_conv set_zip)

lemma update_centroid_finite:
  assumes "\<forall>v\<in>set embeddings. finite_vector d v" "finite_vector d (centroids ! ci)"
  shows "finite_vector d (update_centroid embeddings clusters d centroids ci)"
proof (cases "cluster_points embeddings clusters ci = []")
  case True
  with assms(2) show ?thesis by (simp add: update_centroid_def)
next
  case False
  let ?pts = "cluster_points embeddings clusters ci"
  from False have n: "0 < length ?pts" by simp
  have "\<forall>p\<in>set ?pts. finite_vector d p"
    using assms(1) cluster_points_subset by blast
  then have "finite_vector d (fold (\<lambda>point nc. add_point nc point) ?pts (replicate d (Finite 0)))"
    by (rule finite_vector_fold_add) (rule finite_vector_zero)
  from finite_vector_mean [OF this n] False show ?thesis
    by (simp add: update_centroid_def Let_def)
qed

lemma update_centroids_finite:
  assumes "\<forall>v\<in>set embeddings. finite_vector d v" "\<forall>cent\<in>set centroids. finite_vector d cent"
  shows "\<forall>cent\<in>set (update_centroids embeddings clusters d centroids). finite_vector d cent"
  using assms by (auto simp add: update_centroids_def intro!: update_centroid_finite)

lemma update_centroids_keep:
  assumes "ci < length centroids"
    and "\<forall>i. i < length embeddings \<and> i < length clusters \<longrightarrow> clusters ! i \<noteq> ci"
  shows "update_centroids embeddings clusters dimension centroids ! ci = centroids ! ci"
  using assms(1) cluster_points_empty [OF assms(2)]
  by (simp add: update_centroids_def update_centroid_def)

lemma kmeans_step_finite:
  assumes "\<forall>v\<in>set embeddings. finite_vector (dimension_of embeddings) v"
    and "\<forall>cent\<in>set (snd st). finite_vector (dimension_of embeddings) cent"
  shows "\<forall>cent\<in>set (snd (kmeans_step embeddings st)). finite_vector (dimension_of embeddings) cent"
  using update_centroids_finite [OF assms(1), of "snd st"] assms(2)
  by (cases st) (simp add: kmeans_step_def Let_def)

lemma kmeans_state_finite:
  assumes "\<forall>v\<in>set embeddings. finite_vector (dimension_of embeddings) v"
    and "\<forall>cent\<in>set centroids0. finite_vector (dimension_of embeddings) cent"
  shows "\<forall>cent\<in>set (snd (kmeans_state embeddings centroids0 j)).
           finite_vector (dimension_of embeddings) cent"
proof (induction j)
  case 0
  with assms(2) show ?case by (simp add: kmeans_state_def)
next
  case (Suc j)
  from kmeans_step_finite [OF assms(1) Suc] show ?case by (simp add: kmeans_state_def)
qed

lemma kmeans_loop_finite:
  assumes "\<forall>v\<in>set embeddings. finite_vector d v"
  shows "\<forall>cent\<in>set centroids. finite_vector d cent \<Longrightarrow>
   kmeans_loop embeddings d m clusters centroids = (clusters', centroids', iterations) \<Longrightarrow>
   \<forall>cent\<in>set centroids'. finite_vector d cent"
proof (induction m arbitrary: clusters centroids clusters' centroids' iterations)
  case 0
  then show ?case by simp
next
  case (Suc m)
  let ?new = "assign_clusters centroids embeddings"
  let ?ce = "update_centroids embeddings ?new d centroids"
  show ?case
  proof (cases "changed ?new clusters")
    case False
    with Suc.prems show ?thesis by (simp add: Let_def)
  next
    case True
    obtain cl2 ce2 it2 where r: "kmeans_loop embeddings d m ?new ?ce = (cl2, ce2, it2)"
      by (metis prod_cases3)
    with True Suc.prems(2) have e: "centroids' = ce2" by (simp add: Let_def)
    from update_centroids_finite [OF assms Suc.prems(1)]
    have "\<forall>cent\<in>set ?ce. finite_vector d cent" .
    from Suc.IH [OF this r] e show ?thesis by simp
  qed
qed

text \<open>
  C4: in a centroid-update pass, a centroid to which no vector is assigned keeps its
  previous value. Consequently, on finite input vectors of one non-zero dimension, every
  centroid of every iteration and of the returned result is a vector of that dimension with
  finite components: never empty, and never \<^verbatim>\<open>NaN\<close> (the mean is only taken of a
  non-empty set of points).
\<close>

theorem empty_cluster_keeps_centroid:
  "(ci < length centroids \<and>
    (\<forall>i. i < length embeddings \<and> i < length clusters \<longrightarrow> clusters ! i \<noteq> ci) \<longrightarrow>
      update_centroids embeddings clusters dimension centroids ! ci = centroids ! ci) \<and>
   (embeddings \<noteq> [] \<and> 0 < dimension_of embeddings \<and>
    (\<forall>v\<in>set embeddings. finite_vector (dimension_of embeddings) v) \<and>
    unit_source rnd \<and> fair_source rnd (length embeddings) \<longrightarrow>
      (\<exists>clusters' centroids' iterations c' centroids0 usedIndices.
         init_centroids rnd c embeddings (min k (length embeddings)) [] [] =
           Some (Inr (centroids0, usedIndices, c')) \<and>
         kMeansClustering rnd c embeddings k maxIterations =
           Some (Inr ((clusters', centroids'), iterations, c')) \<and>
         (\<forall>j. \<forall>cent\<in>set (snd (kmeans_state embeddings centroids0 j)).
            finite_vector (dimension_of embeddings) cent) \<and>
         (\<forall>cent\<in>set centroids'. finite_vector (dimension_of embeddings) cent)))"
proof (intro conjI impI)
  assume "ci < length centroids \<and>
    (\<forall>i. i < length embeddings \<and> i < length clusters \<longrightarrow> clusters ! i \<noteq> ci)"
  then show "update_centroids embeddings clusters dimension centroids ! ci = centroids ! ci"
    using update_centroids_keep by blast
next
  assume h: "embeddings \<noteq> [] \<and> 0 < dimension_of embeddings \<and>
    (\<forall>v\<in>set embeddings. finite_vector (dimension_of embeddings) v) \<and>
    unit_source rnd \<and> fair_source rnd (length embeddings)"
  let ?d = "dimension_of embeddings"
  from h have fin: "\<forall>v\<in>set embeddings. finite_vector ?d v" by blast
  from h kMeansClustering_runs [of embeddings rnd c k maxIterations]
  obtain usedIndices c' clusters' centroids' iterations where
    r: "init_centroids rnd c embeddings (min k (length embeddings)) [] [] =
          Some (Inr (map (\<lambda>i. embeddings ! nat i) usedIndices, usedIndices, c'))"
      "\<forall>i\<in>set usedIndices. 0 \<le> i \<and> i < int (length embeddings) \<and>
        (\<exists>j. c \<le> j \<and> j < c' \<and> i = \<lfloor>rnd j * real (length embeddings)\<rfloor>)"
      "kmeans_loop embeddings ?d maxIterations
          (replicate (length embeddings) 0) (map (\<lambda>i. embeddings ! nat i) usedIndices) =
        (clusters', centroids', iterations)"
      "kMeansClustering rnd c embeddings k maxIterations =
          Some (Inr ((clusters', centroids'), iterations, c'))"
    by blast
  let ?c0 = "map (\<lambda>i. embeddings ! nat i) usedIndices"
  have c0: "\<forall>cent\<in>set ?c0. finite_vector ?d cent"
  proof
    fix cent assume "cent \<in> set ?c0"
    then obtain i where i: "i \<in> set usedIndices" "cent = embeddings ! nat i" by auto
    with r(2) have "0 \<le> i" "i < int (length embeddings)" by blast+
    then have "nat i < length embeddings" by linarith
    with i fin show "finite_vector ?d cent" by simp
  qed
  have s: "\<forall>j. \<forall>cent\<in>set (snd (kmeans_state embeddings ?c0 j)). finite_vector ?d cent"
    using kmeans_state_finite [OF fin c0] by blast
  have l: "\<forall>cent\<in>set centroids'. finite_vector ?d cent"
    by (rule kmeans_loop_finite [OF fin c0 r(3)])
  from r(1) r(4) s l show "\<exists>clusters' centroids' iterations c' centroids0 usedIndices.
         init_centroids rnd c embeddings (min k (length embeddings)) [] [] =
           Some (Inr (centroids0, usedIndices, c')) \<and>
         kMeansClustering rnd c embeddings k maxIterations =
           Some (Inr ((clusters', centroids'), iterations, c')) \<and>
         (\<forall>j. \<forall>cent\<in>set (snd (kmeans_state embeddings centroids0 j)).
            finite_vector (dimension_of embeddings) cent) \<and>
         (\<forall>cent\<in>set centroids'. finite_vector (dimension_of embeddings) cent)"
    by blast
qed


theorem empty_cluster_keeps_centroid_witness:
  "update_centroids [[Finite 1], [Finite 2]] [0, 0] 1 [[Finite 1], [Finite 7]] ! 1 =
     [[Finite 1], [Finite 7]] ! 1 \<and>
   (\<exists>clusters' centroids' iterations c' centroids0 usedIndices.
      init_centroids (\<lambda>i. real (i mod 2) / 2) 0 [[Finite 1], [Finite 2]]
          (min 2 (length [[Finite 1], [Finite 2]])) [] [] =
        Some (Inr (centroids0, usedIndices, c')) \<and>
      kMeansClustering (\<lambda>i. real (i mod 2) / 2) 0 [[Finite 1], [Finite 2]] 2 100 =
        Some (Inr ((clusters', centroids'), iterations, c')) \<and>
      (\<forall>j. \<forall>cent\<in>set (snd (kmeans_state [[Finite 1], [Finite 2]] centroids0 j)).
         finite_vector (dimension_of [[Finite 1], [Finite 2]]) cent) \<and>
      (\<forall>cent\<in>set centroids'. finite_vector (dimension_of [[Finite 1], [Finite 2]]) cent))"
proof -
  let ?E = "[[Finite 1], [Finite 2]]"
  let ?rnd = "\<lambda>i. real (i mod 2) / 2"
  note t = empty_cluster_keeps_centroid [of 1 "[[Finite 1], [Finite 7]]" ?E "[0, 0]" 1 ?rnd 0 2 100]
  have len: "length ?E = 2" by simp
  have h1: "1 < length [[Finite 1], [Finite 7]] \<and>
    (\<forall>i. i < length ?E \<and> i < length [0, 0::nat] \<longrightarrow> [0, 0::nat] ! i \<noteq> 1)"
    by (auto simp add: less_Suc_eq)
  have fair: "fair_source ?rnd (length ?E)"
    unfolding len using alternating_source by (rule conjunct2)
  have h2: "?E \<noteq> [] \<and> 0 < dimension_of ?E \<and>
    (\<forall>v\<in>set ?E. finite_vector (dimension_of ?E) v) \<and>
    unit_source ?rnd \<and> fair_source ?rnd (length ?E)"
    using alternating_source fair by (simp add: dimension_of_def finite_vector_def)
  from t h1 h2 show ?thesis by blast
qed

section \<open>Properties of generateClusterLabel\<close>

lemma try_label_object:
  "try_label parse (content # others) =
     (case parse (content_text content) of
        None \<Rightarrow> Inl SyntaxError
      | Some JNull \<Rightarrow> Inl TypeError
      | Some (JObject members) \<Rightarrow>
          Inr (or_default (map_of (rev members) ''name'') ''Uncategorized'',
               or_default (map_of (rev members) ''description'') [])
      | Some v \<Rightarrow> Inr (JString ''Uncategorized'', JString []))"
  by (simp add: try_label_def or_default_def split: option.splits json.splits)

lemma try_label_unusable:
  "parse (content_text content) = Some v \<Longrightarrow> unusable v \<Longrightarrow>
   try_label parse (content # others) = Inl TypeError \<or>
   try_label parse (content # others) = Inr (JString ''Uncategorized'', JString [])"
  by (cases v) (auto simp add: try_label_object unusable_def or_default_def split: option.splits)

text \<open>
  C8, as the claim states it, fails: the two fields are defaulted one by one, and only when
  falsy. A reply that parses to an object with the number 5 as its name is malformed (the
  name is no string) and is returned as it is, not replaced by the sentinel.
\<close>

theorem generateClusterLabel_passes_malformed_counterexample:
  "\<not> well_formed (JObject [(''name'', JNumber 5), (''description'', JString ''d'')]) \<and>
   generateClusterLabel (\<lambda>s. Inr [Some ''c''])
       (\<lambda>s. Some (JObject [(''name'', JNumber 5), (''description'', JString ''d'')])) [''p''] =
     Inr (JNumber 5, JString ''d'')"
  by (simp add: well_formed_def generateClusterLabel_def try_label_def or_default_def)

text \<open>
  C8 (amended): a failure of the provider call propagates; once the provider has answered,
  generateClusterLabel never raises. It returns the sentinel name with the empty
  description when the answer has no choice, when its content is unparseable, and when the
  parsed value offers neither field (\<^verbatim>\<open>null\<close>, not an object, or both fields missing or
  falsy). For a parsed object in general each field is defaulted on its own when it is
  missing or falsy, and passed through otherwise, whatever its type.
\<close>

theorem generateClusterLabel_fallback:
  "(provider (samplePosts postContents) = Inl e \<longrightarrow>
      generateClusterLabel provider parse postContents = Inl e) \<and>
   (provider (samplePosts postContents) = Inr choices \<longrightarrow>
      (\<exists>label. generateClusterLabel provider parse postContents = Inr label)) \<and>
   (provider (samplePosts postContents) = Inr choices \<and>
    (choices = [] \<or> parse (content_text (hd choices)) = None \<or>
     (\<exists>v. parse (content_text (hd choices)) = Some v \<and> unusable v)) \<longrightarrow>
      generateClusterLabel provider parse postContents =
        Inr (JString ''Uncategorized'', JString [])) \<and>
   (provider (samplePosts postContents) = Inr choices \<and> choices \<noteq> [] \<and>
    parse (content_text (hd choices)) = Some (JObject members) \<longrightarrow>
      generateClusterLabel provider parse postContents =
        Inr (or_default (map_of (rev members) ''name'') ''Uncategorized'',
             or_default (map_of (rev members) ''description'') []))"
proof (intro conjI impI)
  assume "provider (samplePosts postContents) = Inl e"
  then show "generateClusterLabel provider parse postContents = Inl e"
    by (simp add: generateClusterLabel_def)
next
  assume "provider (samplePosts postContents) = Inr choices"
  then show "\<exists>label. generateClusterLabel provider parse postContents = Inr label"
    by (simp add: generateClusterLabel_def split: sum.splits)
next
  assume h: "provider (samplePosts postContents) = Inr choices \<and>
    (choices = [] \<or> parse (content_text (hd choices)) = None \<or>
     (\<exists>v. parse (content_text (hd choices)) = Some v \<and> unusable v))"
  show "generateClusterLabel provider parse postContents =
        Inr (JString ''Uncategorized'', JString [])"
  proof (cases choices)
    case Nil
    with h show ?thesis by (simp add: generateClusterLabel_def try_label_def)
  next
    case (Cons content others)
    with h consider "parse (content_text content) = None"
      | v where "parse (content_text content) = Some v" "unusable v" by auto
    then show ?thesis
    proof cases
      case 1
      with h Cons show ?thesis by (simp add: generateClusterLabel_def try_label_object)
    next
      case 2
      from try_label_unusable [of parse content v others, OF 2] h Cons show ?thesis
        by (auto simp add: generateClusterLabel_def)
    qed
  qed
next
  assume h: "provider (samplePosts postContents) = Inr choices \<and> choices \<noteq> [] \<and>
    parse (content_text (hd choices)) = Some (JObject members)"
  then obtain content others where "choices = content # others" by (cases choices) auto
  with h show "generateClusterLabel provider parse postContents =
        Inr (or_default (map_of (rev members) ''name'') ''Uncategorized'',
             or_default (map_of (rev members) ''description'') [])"
    by (simp add: generateClusterLabel_def try_label_object)
qed

theorem generateClusterLabel_fallback_witness:
  "generateClusterLabel (\<lambda>s. Inl APIError) (\<lambda>s. None) [''p''] = Inl APIError \<and>
   (\<exists>label. generateClusterLabel (\<lambda>s. Inr [Some ''c'']) (\<lambda>s. None) [''p''] = Inr label) \<and>
   generateClusterLabel (\<lambda>s. Inr [Some ''c'']) (\<lambda>s. None) [''p''] =
     Inr (JString ''Uncategorized'', JString []) \<and>
   generateClusterLabel (\<lambda>s. Inr [Some ''c''])
       (\<lambda>s. Some (JObject [(''name'', JString ''AI'')])) [''p''] =
     Inr (or_default (map_of (rev [(''name'', JString ''AI'')]) ''name'') ''Uncategorized'',
          or_default (map_of (rev [(''name'', JString ''AI'')]) ''description'') [])"
proof -
  note a = generateClusterLabel_fallback [of "\<lambda>s. Inl APIError" "[''p'']" APIError "\<lambda>s. None" "[]" "[]"]
  note b = generateClusterLabel_fallback [of "\<lambda>s. Inr [Some ''c'']" "[''p'']" APIError "\<lambda>s. None"
      "[Some ''c'']" "[]"]
  note c = generateClusterLabel_fallback [of "\<lambda>s. Inr [Some ''c'']" "[''p'']" APIError
      "\<lambda>s. Some (JObject [(''name'', JString ''AI'')])" "[Some ''c'']" "[(''name'', JString ''AI'')]"]
  from a have 1: "generateClusterLabel (\<lambda>s. Inl APIError) (\<lambda>s. None) [''p''] = Inl APIError"
    by blast
  from b have 2: "\<exists>label. generateClusterLabel (\<lambda>s. Inr [Some ''c'']) (\<lambda>s. None) [''p''] = Inr label"
    by blast
  have "[Some ''c''] = [] \<or> (\<lambda>s. None) (content_text (hd [Some ''c''])) = (None::json option) \<or>
     (\<exists>v. (\<lambda>s. None) (content_text (hd [Some ''c''])) = Some v \<and> unusable v)" by simp
  with b have 3: "generateClusterLabel (\<lambda>s. Inr [Some ''c'']) (\<lambda>s. None) [''p''] =
     Inr (JString ''Uncategorized'', JString [])" by blast
  have "[Some ''c''] \<noteq> [] \<and>
    (\<lambda>s. Some (JObject [(''name'', JString ''AI'')])) (content_text (hd [Some ''c''])) =
      Some (JObject [(''name'', JString ''AI'')])" by simp
  with c have 4: "generateClusterLabel (\<lambda>s. Inr [Some ''c''])
       (\<lambda>s. Some (JObject [(''name'', JString ''AI'')])) [''p''] =
     Inr (or_default (map_of (rev [(''name'', JString ''AI'')]) ''name'') ''Uncategorized'',
          or_default (map_of (rev [(''name'', JString ''AI'')]) ''description'') [])" by blast
  from 1 2 3 4 show ?thesis by (intro conjI)
qed

section \<open>kMeansClustering leaves its input unchanged\<close>

lemma extends_refl: "extends xs xs"
  by (simp add: extends_def)

lemma extends_trans: "extends xs ys \<Longrightarrow> extends ys zs \<Longrightarrow> extends xs zs"
  by (auto simp add: extends_def)

lemma extends_append: "extends xs ys \<Longrightarrow> extends xs (ys @ zs)"
  by (auto simp add: extends_def)

lemma extends_length: "extends xs ys \<Longrightarrow> length xs \<le> length ys"
  by (auto simp add: extends_def)

lemma extends_nth: "extends xs ys \<Longrightarrow> i < length xs \<Longrightarrow> ys ! i = xs ! i"
  by (auto simp add: extends_def nth_append)

lemma extends_update: "extends xs ys \<Longrightarrow> length xs \<le> a \<Longrightarrow> extends xs (ys[a := v])"
  by (auto simp add: extends_def list_update_append)

lemma preserved_refl: "preserved s s"
  by (simp add: preserved_def extends_refl)

lemma preserved_trans: "preserved s0 s1 \<Longrightarrow> preserved s1 s2 \<Longrightarrow> preserved s0 s2"
  by (auto simp add: preserved_def intro: extends_trans)

lemma preserved_new_vec:
  "preserved s0 s \<Longrightarrow> new_vec v s = (a, s') \<Longrightarrow>
   preserved s0 s' \<and> a = length (vecs s) \<and> length (vecs s0) \<le> a \<and> arrs s' = arrs s \<and>
   vecs s' = vecs s @ [v]"
  by (auto simp add: new_vec_def preserved_def extends_append extends_length)

lemma preserved_new_arr:
  "preserved s0 s \<Longrightarrow> new_arr x s = (a, s') \<Longrightarrow>
   preserved s0 s' \<and> a = length (arrs s) \<and> length (arrs s0) \<le> a \<and> vecs s' = vecs s \<and>
   arrs s' = arrs s @ [x]"
  by (auto simp add: new_arr_def preserved_def extends_append extends_length)

lemma preserved_array_push:
  "preserved s0 s \<Longrightarrow> length (arrs s0) \<le> a \<Longrightarrow> preserved s0 (array_push a x s)"
  by (simp add: array_push_def preserved_def extends_update)

lemma preserved_add_at:
  "preserved s0 s \<Longrightarrow> length (vecs s0) \<le> a \<Longrightarrow> preserved s0 (add_at a i val s)"
  by (simp add: add_at_def preserved_def extends_update)

lemma preserved_accumulate_point:
  "preserved s0 s \<Longrightarrow> length (vecs s0) \<le> nc \<Longrightarrow> preserved s0 (accumulate_point nc p s)"
proof -
  have "preserved s0 s \<Longrightarrow> length (vecs s0) \<le> nc \<Longrightarrow>
    preserved s0 (fold (\<lambda>i st. add_at nc i (vecs st ! p ! i) st) idxs s)" for idxs
    by (induction idxs arbitrary: s) (simp_all add: preserved_add_at)
  then show "preserved s0 s \<Longrightarrow> length (vecs s0) \<le> nc \<Longrightarrow>
    preserved s0 (accumulate_point nc p s)"
    by (simp add: accumulate_point_def)
qed

lemma preserved_fold_accumulate:
  "preserved s0 s \<Longrightarrow> length (vecs s0) \<le> nc \<Longrightarrow>
   preserved s0 (fold (accumulate_point nc) ps s)"
  by (induction ps arbitrary: s) (simp_all add: preserved_accumulate_point)


lemma fresh_centroids_preserved:
  "fresh_centroids s0 s ce \<Longrightarrow> preserved s s' \<Longrightarrow> fresh_centroids s0 s' ce"
  unfolding fresh_centroids_def preserved_def
  using extends_length [of "arrs s" "arrs s'"] extends_nth [of "arrs s" "arrs s'" ce]
  by auto

lemma update_centroid_st_frame:
  assumes "preserved s0 s" "fresh_centroids s0 s ce" "ci < length (arrs s ! ce)"
    and "update_centroid_st s e cl d ce ci = (a, s')"
  shows "preserved s0 s' \<and> preserved s s' \<and> length (vecs s0) \<le> a"
proof -
  obtain cp s1 where 1: "new_arr (map fst (filter (\<lambda>(p, c). c = ci) (zip (arrs s ! e) cl))) s = (cp, s1)"
    by (metis surj_pair)
  note p1 = preserved_new_arr [OF assms(1) 1] and q1 = preserved_new_arr [OF preserved_refl 1]
  show ?thesis
  proof (cases "length (arrs s1 ! cp) = 0")
    case True
    with assms(4) 1 have e: "a = arrs s1 ! ce ! ci" "s' = s1"
      by (auto simp add: update_centroid_st_def)
    from assms(2) have "ce < length (arrs s)" by (simp add: fresh_centroids_def)
    with q1 have "arrs s1 ! ce = arrs s ! ce" by (simp add: nth_append)
    with assms(2,3) e have "length (vecs s0) \<le> a"
      by (simp add: fresh_centroids_def list_all_length)
    with e p1 q1 show ?thesis by simp
  next
    case False
    obtain nc s2 where 2: "new_vec (replicate d (Finite 0)) s1 = (nc, s2)" by (metis surj_pair)
    note p2 = preserved_new_vec [OF conjunct1 [OF p1] 2]
      and q2 = preserved_new_vec [OF conjunct1 [OF q1] 2]
    define s3 where "s3 = fold (accumulate_point nc) (arrs s2 ! cp) s2"
    have p3: "preserved s0 s3" unfolding s3_def using p2 by (intro preserved_fold_accumulate) auto
    have "length (vecs s) \<le> nc" using q1 q2 by simp
    then have q3: "preserved s s3" unfolding s3_def using q2 by (intro preserved_fold_accumulate) auto
    from False assms(4) 1 2 have r: "new_vec (map (\<lambda>v. js_div v (Finite (real (length (arrs s3 ! cp)))))
        (vecs s3 ! nc)) s3 = (a, s')"
      by (simp add: update_centroid_st_def s3_def Let_def)
    from preserved_new_vec [OF p3 r] preserved_new_vec [OF q3 r] show ?thesis by simp
  qed
qed

lemma map_update_st_frame:
  "preserved s0 s \<Longrightarrow> fresh_centroids s0 s ce \<Longrightarrow> \<forall>ci\<in>set cs. ci < length (arrs s ! ce) \<Longrightarrow>
   map_update_st s e cl d ce cs = (addrs, s') \<Longrightarrow>
   preserved s0 s' \<and> preserved s s' \<and> list_all (\<lambda>p. length (vecs s0) \<le> p) addrs"
proof (induction cs arbitrary: s addrs s')
  case Nil
  then show ?case by (simp add: preserved_refl)
next
  case (Cons ci cs)
  obtain a s1 where 1: "update_centroid_st s e cl d ce ci = (a, s1)" by (metis surj_pair)
  obtain rest s2 where 2: "map_update_st s1 e cl d ce cs = (rest, s2)" by (metis surj_pair)
  from Cons.prems(4) 1 2 have e: "addrs = a # rest" "s' = s2" by simp_all
  from Cons.prems(3) have "ci < length (arrs s ! ce)" by simp
  from update_centroid_st_frame [OF Cons.prems(1,2) this 1]
  have u: "preserved s0 s1" "preserved s s1" "length (vecs s0) \<le> a" by simp_all
  have f1: "fresh_centroids s0 s1 ce" by (rule fresh_centroids_preserved [OF Cons.prems(2) u(2)])
  from Cons.prems(2) have "ce < length (arrs s)" by (simp add: fresh_centroids_def)
  with u(2) have "arrs s1 ! ce = arrs s ! ce" by (simp add: preserved_def extends_nth)
  with Cons.prems(3) have "\<forall>ci\<in>set cs. ci < length (arrs s1 ! ce)" by simp
  from Cons.IH [OF u(1) f1 this 2] u e show ?case
    by (auto intro: preserved_trans)
qed

lemma update_centroids_st_frame:
  assumes "preserved s0 s" "fresh_centroids s0 s ce"
    and "update_centroids_st s e cl d ce = (ce', s')"
  shows "preserved s0 s' \<and> preserved s s' \<and> fresh_centroids s0 s' ce'"
proof -
  obtain addrs s1 where 1: "map_update_st s e cl d ce [0..<length (arrs s ! ce)] = (addrs, s1)"
    by (metis surj_pair)
  have "\<forall>ci\<in>set [0..<length (arrs s ! ce)]. ci < length (arrs s ! ce)" by simp
  from map_update_st_frame [OF assms(1,2) this 1]
  have m: "preserved s0 s1" "preserved s s1" "list_all (\<lambda>p. length (vecs s0) \<le> p) addrs"
    by simp_all
  from assms(3) 1 have r: "new_arr addrs s1 = (ce', s')" by (simp add: update_centroids_st_def)
  from preserved_new_arr [OF m(1) r] preserved_new_arr [OF m(2) r] m(3) show ?thesis
    by (simp add: fresh_centroids_def)
qed

lemma kmeans_loop_st_frame:
  "preserved s0 s \<Longrightarrow> fresh_centroids s0 s ce \<Longrightarrow>
   kmeans_loop_st s e d m cl ce = ((cl', ce', it), s') \<Longrightarrow>
   preserved s0 s' \<and> fresh_centroids s0 s' ce'"
proof (induction m arbitrary: s cl ce cl' ce' it s')
  case 0
  then show ?case by simp
next
  case (Suc m)
  let ?new = "assign_clusters (vectors_of s ce) (vectors_of s e)"
  show ?case
  proof (cases "changed ?new cl")
    case False
    with Suc.prems show ?thesis by (simp add: Let_def)
  next
    case True
    obtain ce1 s1 where 1: "update_centroids_st s e ?new d ce = (ce1, s1)" by (metis surj_pair)
    obtain cl2 ce2 it2 s2 where 2: "kmeans_loop_st s1 e d m ?new ce1 = ((cl2, ce2, it2), s2)"
      by (metis surj_pair)
    from True Suc.prems(3) 1 2 have e: "ce' = ce2" "s' = s2" by (simp_all add: Let_def)
    from update_centroids_st_frame [OF Suc.prems(1,2) 1]
    have "preserved s0 s1" "fresh_centroids s0 s1 ce1" by simp_all
    from Suc.IH [OF this 2] e show ?thesis by simp
  qed
qed

lemma init_centroids_st_frame:
  "preserved s0 s \<Longrightarrow> fresh_centroids s0 s ce \<Longrightarrow> length (arrs s0) \<le> ce \<Longrightarrow>
   init_centroids_st rnd c s e ce m used = Some (Inr (used', c', s')) \<Longrightarrow>
   preserved s0 s' \<and> fresh_centroids s0 s' ce"
proof (induction m arbitrary: c s used)
  case 0
  then show ?case by simp
next
  case (Suc m)
  from Suc.prems(4) obtain idx c1 where
    1: "sample_index rnd c (length (arrs s ! e)) used = Some (idx, c1)"
    by (auto split: option.splits)
  with Suc.prems(4) have rng: "0 \<le> idx \<and> idx < int (length (arrs s ! e))"
    by (auto split: if_splits)
  obtain copy s1 where 2: "new_vec (vecs s ! (arrs s ! e ! nat idx)) s = (copy, s1)"
    by (metis surj_pair)
  from Suc.prems(4) 1 rng 2
  have r: "init_centroids_st rnd c1 (array_push ce copy s1) e ce m (used @ [idx]) =
      Some (Inr (used', c', s'))" by simp
  note p1 = preserved_new_vec [OF Suc.prems(1) 2]
  have p2: "preserved s0 (array_push ce copy s1)"
    using p1 Suc.prems(3) by (simp add: preserved_array_push)
  from Suc.prems(2) have lt: "ce < length (arrs s)" by (simp add: fresh_centroids_def)
  have f2: "fresh_centroids s0 (array_push ce copy s1) ce"
    using Suc.prems(2) p1 lt by (simp add: fresh_centroids_def array_push_def)
  from Suc.IH [OF p2 f2 Suc.prems(3) r] show ?case .
qed

lemma kMeansClustering_st_frame:
  assumes "kMeansClustering_st rnd c s e k m = Some (Inr ((cl, ce), it, c', s'))"
  shows "preserved s s' \<and> fresh_centroids s s' ce"
proof -
  obtain ce0 s1 where 1: "new_arr [] s = (ce0, s1)" by (metis surj_pair)
  note q1 = preserved_new_arr [OF preserved_refl 1]
  then have f1: "fresh_centroids s s1 ce0" by (simp add: fresh_centroids_def)
  let ?n = "length (arrs s ! e)"
  let ?d = "dimension_of (vectors_of s e)"
  show ?thesis
  proof (cases "?n = 0 \<or> ?d = 0")
    case True
    with assms 1 have "ce = ce0" "s' = s1" by (auto simp add: kMeansClustering_st_def Let_def)
    with q1 f1 show ?thesis by simp
  next
    case False
    with assms 1 obtain used s2 where
      2: "init_centroids_st rnd c s1 e ce0 (min k ?n) [] = Some (Inr (used, c', s2))"
      and 3: "kmeans_loop_st s2 e ?d m (replicate ?n 0) ce0 = ((cl, ce, it), s')"
      by (auto simp add: kMeansClustering_st_def Let_def split: option.splits sum.splits prod.splits)
    from q1 have "length (arrs s) \<le> ce0" by simp
    from init_centroids_st_frame [OF conjunct1 [OF q1] f1 this 2]
    have "preserved s s2" "fresh_centroids s s2 ce0" by simp_all
    from kmeans_loop_st_frame [OF this 3] show ?thesis .
  qed
qed

text \<open>The in-place accumulation computes what the functional model computes.\<close>

lemma plus_assign_Cons: "plus_assign (a # v) (Suc i) y = a # plus_assign v i y"
  by (simp add: plus_assign_def)

lemma fold_plus_assign_Cons:
  "fold (\<lambda>i v. plus_assign v (Suc i) (f i)) idxs (a # v) =
   a # fold (\<lambda>i v. plus_assign v i (f i)) idxs v"
  by (induction idxs arbitrary: v) (simp_all add: plus_assign_Cons)

lemma fold_plus_assign:
  "fold (\<lambda>i v. plus_assign v i (pt ! i)) [0..<length pt] acc = add_point acc pt"
proof (induction pt arbitrary: acc)
  case Nil
  then show ?case by simp
next
  case (Cons x xs)
  have u: "[0..<length (x # xs)] = 0 # map Suc [0..<length xs]"
    by (simp add: upt_conv_Cons map_Suc_upt del: upt_Suc)
  have step: "fold (\<lambda>i v. plus_assign v i ((x # xs) ! i)) [0..<length (x # xs)] acc =
      fold (\<lambda>i v. plus_assign v (Suc i) (xs ! i)) [0..<length xs] (plus_assign acc 0 x)"
    unfolding u by (simp add: fold_map comp_def)
  show ?case
  proof (cases acc)
    case Nil
    then have "plus_assign acc 0 x = [js_add NaN x]" by (simp add: plus_assign_def)
    with Nil show ?thesis
      unfolding step by (simp only: fold_plus_assign_Cons Cons.IH add_point.simps)
  next
    case (Cons a v)
    then have "plus_assign acc 0 x = js_add a x # v" by (simp add: plus_assign_def)
    with Cons show ?thesis
      unfolding step by (simp only: fold_plus_assign_Cons Cons.IH add_point.simps)
  qed
qed

lemma fold_add_at:
  assumes "nc < length (vecs s)" "p \<noteq> nc"
  shows "fold (\<lambda>i st. add_at nc i (vecs st ! p ! i) st) idxs (s\<lparr>vecs := (vecs s)[nc := v]\<rparr>) =
         s\<lparr>vecs := (vecs s)[nc := fold (\<lambda>i v. plus_assign v i (vecs s ! p ! i)) idxs v]\<rparr>"
  using assms by (induction idxs arbitrary: v) (simp_all add: add_at_def)

lemma accumulate_point_value:
  assumes "nc < length (vecs s)" "p \<noteq> nc"
  shows "accumulate_point nc p s = s\<lparr>vecs := (vecs s)[nc := add_point (vecs s ! nc) (vecs s ! p)]\<rparr>"
proof -
  have "s = s\<lparr>vecs := (vecs s)[nc := vecs s ! nc]\<rparr>" by simp
  then have "accumulate_point nc p s =
      fold (\<lambda>i st. add_at nc i (vecs st ! p ! i) st) [0..<length (vecs s ! p)]
        (s\<lparr>vecs := (vecs s)[nc := vecs s ! nc]\<rparr>)"
    by (simp add: accumulate_point_def)
  also have "\<dots> = s\<lparr>vecs := (vecs s)[nc := fold (\<lambda>i v. plus_assign v i (vecs s ! p ! i))
      [0..<length (vecs s ! p)] (vecs s ! nc)]\<rparr>"
    by (rule fold_add_at [OF assms])
  finally show ?thesis by (simp add: fold_plus_assign)
qed

lemma fold_accumulate_value:
  "nc < length (vecs s) \<Longrightarrow> \<forall>p\<in>set ps. p \<noteq> nc \<Longrightarrow>
   fold (accumulate_point nc) ps s =
     s\<lparr>vecs := (vecs s)[nc := fold (\<lambda>point acc. add_point acc point) (map (\<lambda>p. vecs s ! p) ps)
                                 (vecs s ! nc)]\<rparr>"
proof (induction ps arbitrary: s)
  case Nil
  then show ?case by simp
next
  case (Cons p ps)
  let ?s1 = "s\<lparr>vecs := (vecs s)[nc := add_point (vecs s ! nc) (vecs s ! p)]\<rparr>"
  from Cons.prems have a: "accumulate_point nc p s = ?s1"
    by (intro accumulate_point_value) auto
  have n: "nc < length (vecs ?s1)" using Cons.prems by simp
  have r: "\<forall>p\<in>set ps. p \<noteq> nc" using Cons.prems by simp
  have same: "map (\<lambda>q. (vecs s)[nc := add_point (vecs s ! nc) (vecs s ! p)] ! q) ps =
      map (\<lambda>q. vecs s ! q) ps"
    using r by (intro map_cong) auto
  show ?case
    using Cons.IH [OF n r] Cons.prems(1) by (simp add: a same)
qed

lemma preserved_empty: "preserved empty_store s"
  by (simp add: preserved_def extends_def empty_store_def)

lemma valid_array_preserved:
  assumes "valid_array s a" "preserved s s'"
  shows "valid_array s' a \<and> arrs s' ! a = arrs s ! a \<and> vectors_of s' a = vectors_of s a"
proof -
  from assms have a: "a < length (arrs s)" and e: "arrs s' ! a = arrs s ! a"
    by (simp_all add: valid_array_def preserved_def extends_nth)
  from assms have l: "length (arrs s) \<le> length (arrs s')" "length (vecs s) \<le> length (vecs s')"
    by (simp_all add: preserved_def extends_length)
  from assms(1) have v: "\<forall>p\<in>set (arrs s ! a). p < length (vecs s)"
    by (simp add: valid_array_def list_all_iff)
  with assms(2) have "\<forall>p\<in>set (arrs s ! a). vecs s' ! p = vecs s ! p"
    by (simp add: preserved_def extends_nth)
  then have "vectors_of s' a = vectors_of s a" by (simp add: vectors_of_def e)
  moreover have "valid_array s' a" using a e l v by (auto simp add: valid_array_def list_all_iff)
  ultimately show ?thesis using e by simp
qed

lemma cluster_points_map:
  "map f (map fst (filter (\<lambda>(p, c). c = ci) (zip xs cl))) =
   cluster_points (map f xs) cl ci"
proof (induction xs arbitrary: cl)
  case Nil
  then show ?case by (simp add: cluster_points_def)
next
  case (Cons x xs)
  then show ?case by (cases cl) (auto simp add: cluster_points_def)
qed

lemma update_centroid_st_value:
  assumes "valid_array s e" "valid_array s ce" "ci < length (arrs s ! ce)"
    and "update_centroid_st s e cl d ce ci = (a, s')"
  shows "preserved s s' \<and> a < length (vecs s') \<and>
         vecs s' ! a = update_centroid (vectors_of s e) cl d (vectors_of s ce) ci"
proof -
  let ?pts = "map fst (filter (\<lambda>(p, c). c = ci) (zip (arrs s ! e) cl))"
  have fc: "fresh_centroids empty_store s ce"
    using assms(2) by (simp add: fresh_centroids_def valid_array_def empty_store_def list_all_iff)
  from update_centroid_st_frame [OF preserved_empty fc assms(3,4)]
  have pres: "preserved s s'" by simp
  have cp: "map (\<lambda>p. vecs s ! p) ?pts = cluster_points (vectors_of s e) cl ci"
    unfolding vectors_of_def by (rule cluster_points_map)
  have in_e: "\<forall>p\<in>set ?pts. p < length (vecs s)"
  proof
    fix p assume "p \<in> set ?pts"
    then have "p \<in> set (arrs s ! e)" by (auto dest: set_zip_leftD)
    with assms(1) show "p < length (vecs s)" by (simp add: valid_array_def list_all_iff)
  qed
  define s1 where "s1 = s\<lparr>arrs := arrs s @ [?pts]\<rparr>"
  have 1: "new_arr ?pts s = (length (arrs s), s1)" by (simp add: new_arr_def s1_def)
  have s1: "arrs s1 ! length (arrs s) = ?pts" "vecs s1 = vecs s" by (simp_all add: s1_def)
  from assms(2) have ce: "ce < length (arrs s)" by (simp add: valid_array_def)
  show ?thesis
  proof (cases "?pts = []")
    case True
    with assms(4) 1 s1 have e: "a = arrs s1 ! ce ! ci" "s' = s1"
      by (auto simp add: update_centroid_st_def)
    from ce have "arrs s1 ! ce = arrs s ! ce" by (simp add: s1_def nth_append)
    with e have a: "a = arrs s ! ce ! ci" by simp
    with assms(2,3) have lt: "a < length (vecs s)" by (simp add: valid_array_def list_all_length)
    from True cp have "cluster_points (vectors_of s e) cl ci = []" by simp
    then have "update_centroid (vectors_of s e) cl d (vectors_of s ce) ci = vectors_of s ce ! ci"
      by (simp add: update_centroid_def)
    also have "\<dots> = vecs s ! a" using assms(3) a by (simp add: vectors_of_def)
    finally show ?thesis using pres lt e s1 by simp
  next
    case False
    let ?nc = "length (vecs s)"
    define s2 where "s2 = s1\<lparr>vecs := vecs s @ [replicate d (Finite 0)]\<rparr>"
    have 2: "new_vec (replicate d (Finite 0)) s1 = (?nc, s2)"
      by (simp add: new_vec_def s2_def s1)
    have s2: "arrs s2 ! length (arrs s) = ?pts" "vecs s2 = vecs s @ [replicate d (Finite 0)]"
      by (simp_all add: s2_def s1)
    define s3 where "s3 = fold (accumulate_point ?nc) ?pts s2"
    have n: "?nc < length (vecs s2)" by (simp add: s2)
    have ne: "\<forall>p\<in>set ?pts. p \<noteq> ?nc" using in_e by auto
    have same: "map (\<lambda>p. vecs s2 ! p) ?pts = map (\<lambda>p. vecs s ! p) ?pts"
      using in_e by (intro map_cong) (auto simp add: s2 nth_append)
    have pts2: "map (\<lambda>p. vecs s2 ! p) ?pts = cluster_points (vectors_of s e) cl ci"
      by (simp only: same cp)
    have z: "vecs s2 ! ?nc = replicate d (Finite 0)" by (simp add: s2)
    have s3: "s3 = s2\<lparr>vecs := (vecs s2)[?nc := fold (\<lambda>point acc. add_point acc point)
        (cluster_points (vectors_of s e) cl ci) (replicate d (Finite 0))]\<rparr>"
      unfolding s3_def fold_accumulate_value [OF n ne] pts2 z ..
    then have v3: "vecs s3 ! ?nc = fold (\<lambda>point acc. add_point acc point)
        (cluster_points (vectors_of s e) cl ci) (replicate d (Finite 0))"
      and a3: "arrs s3 ! length (arrs s) = ?pts"
      by (simp_all add: s2)
    from False assms(4) 1 2 s1 s2 have r: "new_vec (map (\<lambda>v. js_div v (Finite (real (length (arrs s3 ! length (arrs s))))))
        (vecs s3 ! ?nc)) s3 = (a, s')"
      by (simp add: update_centroid_st_def s3_def Let_def)
    have len: "length ?pts = length (cluster_points (vectors_of s e) cl ci)"
      using cp by (metis length_map)
    from False len have nz: "length (cluster_points (vectors_of s e) cl ci) \<noteq> 0"
      by (metis length_0_conv)
    from r have "a = length (vecs s3)" "vecs s' = vecs s3 @ [map (\<lambda>v. js_div v (Finite (real (length ?pts)))) (vecs s3 ! ?nc)]"
      by (auto simp add: new_vec_def a3)
    then have lt: "a < length (vecs s')"
      and av: "vecs s' ! a = map (\<lambda>v. js_div v (Finite (real (length ?pts)))) (vecs s3 ! ?nc)"
      by simp_all
    have "vecs s' ! a =
        map (\<lambda>v. js_div v (Finite (real (length (cluster_points (vectors_of s e) cl ci)))))
          (fold (\<lambda>point acc. add_point acc point)
             (cluster_points (vectors_of s e) cl ci) (replicate d (Finite 0)))"
      using av unfolding len v3 .
    with pres nz lt show ?thesis
      by (simp add: update_centroid_def Let_def)
  qed
qed


lemma map_update_st_value:
  "valid_array s e \<Longrightarrow> valid_array s ce \<Longrightarrow> \<forall>ci\<in>set cs. ci < length (arrs s ! ce) \<Longrightarrow>
   map_update_st s e cl d ce cs = (addrs, s') \<Longrightarrow>
   preserved s s' \<and> list_all (\<lambda>p. p < length (vecs s')) addrs \<and>
   map (\<lambda>p. vecs s' ! p) addrs =
     map (update_centroid (vectors_of s e) cl d (vectors_of s ce)) cs"
proof (induction cs arbitrary: s addrs s')
  case Nil
  then show ?case by (simp add: preserved_refl)
next
  case (Cons ci cs)
  obtain a s1 where 1: "update_centroid_st s e cl d ce ci = (a, s1)" by (metis surj_pair)
  obtain rest s2 where 2: "map_update_st s1 e cl d ce cs = (rest, s2)" by (metis surj_pair)
  from Cons.prems(4) 1 2 have e: "addrs = a # rest" "s' = s2" by simp_all
  from Cons.prems(3) have "ci < length (arrs s ! ce)" by simp
  from update_centroid_st_value [OF Cons.prems(1,2) this 1]
  have u: "preserved s s1" "a < length (vecs s1)"
    "vecs s1 ! a = update_centroid (vectors_of s e) cl d (vectors_of s ce) ci" by simp_all
  note ve = valid_array_preserved [OF Cons.prems(1) u(1)]
    and vc = valid_array_preserved [OF Cons.prems(2) u(1)]
  from vc Cons.prems(3) have "\<forall>ci\<in>set cs. ci < length (arrs s1 ! ce)" by simp
  from Cons.IH [OF conjunct1 [OF ve] conjunct1 [OF vc] this 2]
  have ih: "preserved s1 s2" "list_all (\<lambda>p. p < length (vecs s2)) rest"
    "map (\<lambda>p. vecs s2 ! p) rest =
       map (update_centroid (vectors_of s1 e) cl d (vectors_of s1 ce)) cs" by simp_all
  from ih(1) u(2) have a2: "vecs s2 ! a = vecs s1 ! a" "a < length (vecs s2)"
    using extends_length [of "vecs s1" "vecs s2"]
    by (simp_all add: preserved_def extends_nth)
  from u(1) ih(1) have "preserved s s2" by (rule preserved_trans)
  with a2 u(3) ih ve vc e show ?case by simp
qed

lemma update_centroids_st_value:
  assumes "valid_array s e" "valid_array s ce"
    and "update_centroids_st s e cl d ce = (ce', s')"
  shows "preserved s s' \<and> valid_array s' ce' \<and>
         vectors_of s' ce' = update_centroids (vectors_of s e) cl d (vectors_of s ce)"
proof -
  obtain addrs s1 where 1: "map_update_st s e cl d ce [0..<length (arrs s ! ce)] = (addrs, s1)"
    by (metis surj_pair)
  have "\<forall>ci\<in>set [0..<length (arrs s ! ce)]. ci < length (arrs s ! ce)" by simp
  from map_update_st_value [OF assms(1,2) this 1]
  have m: "preserved s s1" "list_all (\<lambda>p. p < length (vecs s1)) addrs"
    "map (\<lambda>p. vecs s1 ! p) addrs =
       map (update_centroid (vectors_of s e) cl d (vectors_of s ce)) [0..<length (arrs s ! ce)]"
    by simp_all
  from assms(3) 1 have r: "new_arr addrs s1 = (ce', s')" by (simp add: update_centroids_st_def)
  note n = preserved_new_arr [OF m(1) r]
  have "vectors_of s' ce' = map (\<lambda>p. vecs s1 ! p) addrs"
    using n by (simp add: vectors_of_def)
  also have "\<dots> = update_centroids (vectors_of s e) cl d (vectors_of s ce)"
    by (simp add: m(3) update_centroids_def vectors_of_def)
  finally have v: "vectors_of s' ce' = update_centroids (vectors_of s e) cl d (vectors_of s ce)" .
  have "valid_array s' ce'" using n m(2) by (simp add: valid_array_def)
  with n v show ?thesis by simp
qed

lemma kmeans_loop_st_value:
  "valid_array s e \<Longrightarrow> valid_array s ce \<Longrightarrow>
   kmeans_loop (vectors_of s e) d m cl (vectors_of s ce) = (cl', cents, it) \<Longrightarrow>
   \<exists>ce' s'. kmeans_loop_st s e d m cl ce = ((cl', ce', it), s') \<and>
     vectors_of s' ce' = cents \<and> preserved s s'"
proof (induction m arbitrary: s cl ce cl' cents it)
  case 0
  then show ?case by (simp add: preserved_refl)
next
  case (Suc m)
  let ?new = "assign_clusters (vectors_of s ce) (vectors_of s e)"
  show ?case
  proof (cases "changed ?new cl")
    case False
    with Suc.prems(3) show ?thesis by (auto simp add: Let_def preserved_refl)
  next
    case True
    obtain ce1 s1 where 1: "update_centroids_st s e ?new d ce = (ce1, s1)" by (metis surj_pair)
    from update_centroids_st_value [OF Suc.prems(1,2) 1]
    have u: "preserved s s1" "valid_array s1 ce1"
      "vectors_of s1 ce1 = update_centroids (vectors_of s e) ?new d (vectors_of s ce)"
      by simp_all
    note ve = valid_array_preserved [OF Suc.prems(1) u(1)]
    obtain cl2 c2 it2 where
      p: "kmeans_loop (vectors_of s e) d m ?new
            (update_centroids (vectors_of s e) ?new d (vectors_of s ce)) = (cl2, c2, it2)"
      by (metis prod_cases3)
    with True Suc.prems(3) have e: "cl' = cl2" "cents = c2" "it = Suc it2"
      by (simp_all add: Let_def)
    from p ve u(3) have "kmeans_loop (vectors_of s1 e) d m ?new (vectors_of s1 ce1) = (cl2, c2, it2)"
      by simp
    from Suc.IH [OF conjunct1 [OF ve] u(2) this] obtain ce' s' where
      ih: "kmeans_loop_st s1 e d m ?new ce1 = ((cl2, ce', it2), s')"
        "vectors_of s' ce' = c2" "preserved s1 s'" by blast
    from u(1) ih(3) have "preserved s s'" by (rule preserved_trans)
    with True 1 ih e show ?thesis by (simp add: Let_def)
  qed
qed

lemma init_centroids_st_value:
  "valid_array s e \<Longrightarrow> valid_array s ce \<Longrightarrow> ce \<noteq> e \<Longrightarrow>
   (init_centroids rnd c (vectors_of s e) m used (vectors_of s ce) = None \<longrightarrow>
      init_centroids_st rnd c s e ce m used = None) \<and>
   (\<forall>err. init_centroids rnd c (vectors_of s e) m used (vectors_of s ce) = Some (Inl err) \<longrightarrow>
      init_centroids_st rnd c s e ce m used = Some (Inl err)) \<and>
   (\<forall>cents used' c'.
      init_centroids rnd c (vectors_of s e) m used (vectors_of s ce) = Some (Inr (cents, used', c')) \<longrightarrow>
      (\<exists>s'. init_centroids_st rnd c s e ce m used = Some (Inr (used', c', s')) \<and>
         vectors_of s' ce = cents \<and> valid_array s' e \<and> valid_array s' ce \<and>
         vectors_of s' e = vectors_of s e \<and> arrs s' ! e = arrs s ! e))"
proof (induction m arbitrary: c s used)
  case 0
  then show ?case by simp
next
  case (Suc m)
  let ?E = "vectors_of s e"
  have n: "length ?E = length (arrs s ! e)" by (simp add: vectors_of_def)
  show ?case
  proof (cases "sample_index rnd c (length (arrs s ! e)) used")
    case None
    then show ?thesis by (simp add: n)
  next
    case (Some r)
    obtain idx c1 where r: "r = (idx, c1)" by (metis surj_pair)
    show ?thesis
    proof (cases "0 \<le> idx \<and> idx < int (length (arrs s ! e))")
      case False
      have "init_centroids_st rnd c s e ce (Suc m) used = Some (Inl TypeError)"
        by (simp only: init_centroids_st.simps Some r option.case prod.case False if_False)
      moreover have "init_centroids rnd c ?E (Suc m) used (vectors_of s ce) = Some (Inl TypeError)"
        by (simp only: init_centroids.simps n Some r option.case prod.case False if_False)
      ultimately show ?thesis by simp
    next
      case True
      let ?p = "arrs s ! e ! nat idx"
      let ?s2 = "array_push ce (length (vecs s)) (s\<lparr>vecs := vecs s @ [vecs s ! ?p]\<rparr>)"
      from True have i: "nat idx < length (arrs s ! e)" by linarith
      from Suc.prems(1,2) have lt: "e < length (arrs s)" "ce < length (arrs s)"
        and ve: "\<forall>p\<in>set (arrs s ! e). p < length (vecs s)"
        and vc: "\<forall>p\<in>set (arrs s ! ce). p < length (vecs s)"
        by (simp_all add: valid_array_def list_all_iff)
      have a2: "arrs ?s2 = (arrs s)[ce := arrs s ! ce @ [length (vecs s)]]"
        and v2: "vecs ?s2 = vecs s @ [vecs s ! ?p]"
        by (simp_all add: array_push_def)
      have e2: "arrs ?s2 ! e = arrs s ! e" using Suc.prems(3) by (simp add: a2)
      have c2: "arrs ?s2 ! ce = arrs s ! ce @ [length (vecs s)]" using lt by (simp add: a2)
      have E2: "vectors_of ?s2 e = ?E"
        unfolding vectors_of_def e2 v2 using ve by (intro map_cong) (auto simp add: nth_append)
      have "map (\<lambda>p. (vecs s @ [vecs s ! ?p]) ! p) (arrs s ! ce) = map (\<lambda>p. vecs s ! p) (arrs s ! ce)"
        using vc by (intro map_cong) (auto simp add: nth_append)
      then have C2: "vectors_of ?s2 ce = vectors_of s ce @ [?E ! nat idx]"
        unfolding vectors_of_def c2 v2 using i by simp
      have val: "valid_array ?s2 e" "valid_array ?s2 ce"
        using lt ve vc Suc.prems(3)
        by (auto simp add: valid_array_def list_all_iff a2 v2 less_Suc_eq)
      have st: "init_centroids_st rnd c s e ce (Suc m) used =
          init_centroids_st rnd c1 ?s2 e ce m (used @ [idx])"
        using Some r True by (simp add: new_vec_def)
      have pu: "init_centroids rnd c ?E (Suc m) used (vectors_of s ce) =
          init_centroids rnd c1 (vectors_of ?s2 e) m (used @ [idx]) (vectors_of ?s2 ce)"
        using Some r True by (simp add: n E2 C2)
      from Suc.IH [OF val Suc.prems(3), of c1 "used @ [idx]"] show ?thesis
        unfolding st pu by (simp add: E2 e2)
    qed
  qed
qed


lemma kMeansClustering_st_refines:
  assumes "valid_array s e"
  shows "(kMeansClustering rnd c (vectors_of s e) k m = None \<longrightarrow>
            kMeansClustering_st rnd c s e k m = None) \<and>
         (\<forall>err. kMeansClustering rnd c (vectors_of s e) k m = Some (Inl err) \<longrightarrow>
            kMeansClustering_st rnd c s e k m = Some (Inl err)) \<and>
         (\<forall>cl cents it c'.
            kMeansClustering rnd c (vectors_of s e) k m = Some (Inr ((cl, cents), it, c')) \<longrightarrow>
            (\<exists>ce s'. kMeansClustering_st rnd c s e k m = Some (Inr ((cl, ce), it, c', s')) \<and>
               vectors_of s' ce = cents))"
proof -
  let ?E = "vectors_of s e"
  let ?n = "length (arrs s ! e)"
  let ?ce = "length (arrs s)"
  let ?s1 = "s\<lparr>arrs := arrs s @ [[]]\<rparr>"
  have n: "length ?E = ?n" by (simp add: vectors_of_def)
  from assms have lt: "e < ?ce" by (simp add: valid_array_def)
  have 1: "new_arr [] s = (?ce, ?s1)" by (simp add: new_arr_def)
  have p1: "preserved s ?s1" by (simp add: preserved_def extends_def)
  note v1 = valid_array_preserved [OF assms p1]
  have c1: "valid_array ?s1 ?ce" "vectors_of ?s1 ?ce = []" "?ce \<noteq> e"
    using lt by (simp_all add: valid_array_def vectors_of_def)
  show ?thesis
  proof (cases "?n = 0 \<or> dimension_of ?E = 0")
    case True
    then have "kMeansClustering rnd c ?E k m = Some (Inr (([], []), 0, c))"
      "kMeansClustering_st rnd c s e k m = Some (Inr (([], ?ce), 0, c, ?s1))"
      by (auto simp add: kMeansClustering_def kMeansClustering_st_def 1 n Let_def)
    with c1(2) show ?thesis by simp
  next
    case False
    note i = init_centroids_st_value [OF conjunct1 [OF v1] c1(1,3), of rnd c "min k ?n" "[]",
        unfolded c1(2)]
    have E1: "vectors_of ?s1 e = ?E" using v1 by simp
    have pure: "kMeansClustering rnd c ?E k m =
        (case init_centroids rnd c ?E (min k ?n) [] [] of
           None \<Rightarrow> None
         | Some (Inl err) \<Rightarrow> Some (Inl err)
         | Some (Inr (centroids0, usedIndices, c')) \<Rightarrow>
             (case kmeans_loop ?E (dimension_of ?E) m (replicate ?n 0) centroids0 of
                (clusters, centroids, iterations) \<Rightarrow>
                  Some (Inr ((clusters, centroids), iterations, c'))))"
      using False by (simp add: kMeansClustering_def n Let_def)
    have st: "kMeansClustering_st rnd c s e k m =
        (case init_centroids_st rnd c ?s1 e ?ce (min k ?n) [] of
           None \<Rightarrow> None
         | Some (Inl err) \<Rightarrow> Some (Inl err)
         | Some (Inr (usedIndices, c', s2)) \<Rightarrow>
             (case kmeans_loop_st s2 e (dimension_of ?E) m (replicate ?n 0) ?ce of
                ((clusters, centroids', iterations), s3) \<Rightarrow>
                  Some (Inr ((clusters, centroids'), iterations, c', s3))))"
      using False by (simp add: kMeansClustering_st_def 1 Let_def)
    show ?thesis
    proof (cases "init_centroids rnd c ?E (min k ?n) [] []")
      case None
      with i E1 show ?thesis unfolding pure st by simp
    next
      case (Some r)
      show ?thesis
      proof (cases r)
        case (Inl err)
        with Some i E1 show ?thesis unfolding pure st by simp
      next
        case (Inr t)
        obtain cents0 used c' where t: "t = (cents0, used, c')" by (metis prod_cases3)
        with Some Inr i E1 obtain s2 where
          s2: "init_centroids_st rnd c ?s1 e ?ce (min k ?n) [] = Some (Inr (used, c', s2))"
            "vectors_of s2 ?ce = cents0" "valid_array s2 e" "valid_array s2 ?ce"
            "vectors_of s2 e = ?E"
          by auto
        obtain cl cents it where
          l: "kmeans_loop ?E (dimension_of ?E) m (replicate ?n 0) cents0 = (cl, cents, it)"
          by (metis prod_cases3)
        then have "kmeans_loop (vectors_of s2 e) (dimension_of ?E) m (replicate ?n 0)
            (vectors_of s2 ?ce) = (cl, cents, it)" using s2 by simp
        from kmeans_loop_st_value [OF s2(3,4) this] obtain ce' s' where
          "kmeans_loop_st s2 e (dimension_of ?E) m (replicate ?n 0) ?ce = ((cl, ce', it), s')"
          "vectors_of s' ce' = cents" by blast
        with Some Inr t s2 l show ?thesis unfolding pure st by simp
      qed
    qed
  qed
qed

lemma kMeansClustering_st_example:
  "kMeansClustering_st (\<lambda>i. 0) 0 \<lparr>vecs = [[Finite 1]], arrs = [[0]]\<rparr> 0 1 1 =
     Some (Inr (([0], 1), 1, 1, \<lparr>vecs = [[Finite 1], [Finite 1]], arrs = [[0], [1]]\<rparr>))"
  by (simp add: kMeansClustering_st_def new_arr_def new_vec_def array_push_def vectors_of_def
      dimension_of_def sample_index.simps assign_clusters_def nearest_centroid_def
      cosineSimilarity_def js_sub_def changed_def Let_def)

text \<open>
  C9: a call that returns leaves every array that existed before it unchanged, at its
  address: the store after the call is the store before it with new arrays appended. In
  particular the \<^verbatim>\<open>embeddings\<close> array holds the same addresses, and the vectors at them
  are the same. None of the returned centroid vectors is an array of the input: they are
  all allocated during the call (copies of input vectors, or newly computed means). The
  call on the store returns exactly when the functional model returns, with the same
  assignment and the same centroid vectors.
\<close>

theorem kMeansClustering_keeps_input:
  "(valid_array s embeddings \<and>
    kMeansClustering_st rnd c s embeddings k maxIterations =
      Some (Inr ((clusters, centroids), iterations, c', s')) \<longrightarrow>
      preserved s s' \<and>
      arrs s' ! embeddings = arrs s ! embeddings \<and>
      vectors_of s' embeddings = vectors_of s embeddings \<and>
      fresh_centroids s s' centroids \<and>
      kMeansClustering rnd c (vectors_of s embeddings) k maxIterations =
        Some (Inr ((clusters, vectors_of s' centroids), iterations, c'))) \<and>
   (valid_array s embeddings \<and>
    kMeansClustering rnd c (vectors_of s embeddings) k maxIterations =
      Some (Inr ((clusters0, centroids0), iterations0, c0)) \<longrightarrow>
      (\<exists>centroids1 s1. kMeansClustering_st rnd c s embeddings k maxIterations =
         Some (Inr ((clusters0, centroids1), iterations0, c0, s1)) \<and>
         vectors_of s1 centroids1 = centroids0))"
proof (rule conjI; rule impI)
  assume h: "valid_array s embeddings \<and>
    kMeansClustering_st rnd c s embeddings k maxIterations =
      Some (Inr ((clusters, centroids), iterations, c', s'))"
  then have v: "valid_array s embeddings"
    and r: "kMeansClustering_st rnd c s embeddings k maxIterations =
      Some (Inr ((clusters, centroids), iterations, c', s'))" by simp_all
  from kMeansClustering_st_frame [OF r]
  have f: "preserved s s'" "fresh_centroids s s' centroids" by simp_all
  note u = valid_array_preserved [OF v f(1)]
  note ref = kMeansClustering_st_refines [OF v, of rnd c k maxIterations]
  have p: "kMeansClustering rnd c (vectors_of s embeddings) k maxIterations =
        Some (Inr ((clusters, vectors_of s' centroids), iterations, c'))"
  proof (cases "kMeansClustering rnd c (vectors_of s embeddings) k maxIterations")
    case None
    with ref r show ?thesis by simp
  next
    case (Some x)
    show ?thesis
    proof (cases x)
      case (Inl err)
      with Some ref r show ?thesis by simp
    next
      case (Inr t)
      obtain cl cents it c1 where t: "t = ((cl, cents), it, c1)" by (metis prod_cases3 surj_pair)
      with Some Inr ref obtain ce s2 where
        "kMeansClustering_st rnd c s embeddings k maxIterations = Some (Inr ((cl, ce), it, c1, s2))"
        "vectors_of s2 ce = cents" by blast
      with r Some Inr t show ?thesis by simp
    qed
  qed
  from f u p show "preserved s s' \<and>
      arrs s' ! embeddings = arrs s ! embeddings \<and>
      vectors_of s' embeddings = vectors_of s embeddings \<and>
      fresh_centroids s s' centroids \<and>
      kMeansClustering rnd c (vectors_of s embeddings) k maxIterations =
        Some (Inr ((clusters, vectors_of s' centroids), iterations, c'))" by simp
next
  assume "valid_array s embeddings \<and>
    kMeansClustering rnd c (vectors_of s embeddings) k maxIterations =
      Some (Inr ((clusters0, centroids0), iterations0, c0))"
  with kMeansClustering_st_refines [of s embeddings rnd c k maxIterations]
  show "\<exists>centroids1 s1. kMeansClustering_st rnd c s embeddings k maxIterations =
         Some (Inr ((clusters0, centroids1), iterations0, c0, s1)) \<and>
         vectors_of s1 centroids1 = centroids0" by blast
qed


theorem kMeansClustering_keeps_input_witness:
  "preserved \<lparr>vecs = [[Finite 1]], arrs = [[0]]\<rparr>
     \<lparr>vecs = [[Finite 1], [Finite 1]], arrs = [[0], [1]]\<rparr> \<and>
   arrs \<lparr>vecs = [[Finite 1], [Finite 1]], arrs = [[0], [1]]\<rparr> ! 0 =
     arrs \<lparr>vecs = [[Finite 1]], arrs = [[0]]\<rparr> ! 0 \<and>
   vectors_of \<lparr>vecs = [[Finite 1], [Finite 1]], arrs = [[0], [1]]\<rparr> 0 =
     vectors_of \<lparr>vecs = [[Finite 1]], arrs = [[0]]\<rparr> 0 \<and>
   fresh_centroids \<lparr>vecs = [[Finite 1]], arrs = [[0]]\<rparr>
     \<lparr>vecs = [[Finite 1], [Finite 1]], arrs = [[0], [1]]\<rparr> 1 \<and>
   kMeansClustering (\<lambda>i. 0) 0 (vectors_of \<lparr>vecs = [[Finite 1]], arrs = [[0]]\<rparr> 0) 1 1 =
     Some (Inr (([0], vectors_of \<lparr>vecs = [[Finite 1], [Finite 1]], arrs = [[0], [1]]\<rparr> 1), 1, 1)) \<and>
   (\<exists>centroids1 s1.
      kMeansClustering_st (\<lambda>i. 0) 0 \<lparr>vecs = [[Finite 1]], arrs = [[0]]\<rparr> 0 1 1 =
        Some (Inr (([0], centroids1), 1, 1, s1)) \<and>
      vectors_of s1 centroids1 =
        vectors_of \<lparr>vecs = [[Finite 1], [Finite 1]], arrs = [[0], [1]]\<rparr> 1)"
proof -
  let ?s = "\<lparr>vecs = [[Finite 1]], arrs = [[0]]\<rparr>"
  let ?s' = "\<lparr>vecs = [[Finite 1], [Finite 1]], arrs = [[0], [1]]\<rparr>"
  note t = kMeansClustering_keeps_input [of ?s 0 "\<lambda>i. 0" 0 1 1 "[0]" 1 1 1 ?s'
      "[0]" "vectors_of ?s' 1" 1 1]
  have v: "valid_array ?s 0" by (simp add: valid_array_def)
  from t v kMeansClustering_st_example
  have a: "preserved ?s ?s' \<and> arrs ?s' ! 0 = arrs ?s ! 0 \<and>
      vectors_of ?s' 0 = vectors_of ?s 0 \<and> fresh_centroids ?s ?s' 1 \<and>
      kMeansClustering (\<lambda>i. 0) 0 (vectors_of ?s 0) 1 1 =
        Some (Inr (([0], vectors_of ?s' 1), 1, 1))"
    by blast
  with t v have "\<exists>centroids1 s1.
      kMeansClustering_st (\<lambda>i. 0) 0 ?s 0 1 1 = Some (Inr (([0], centroids1), 1, 1, s1)) \<and>
      vectors_of s1 centroids1 = vectors_of ?s' 1"
    by blast
  with a show ?thesis by blast
qed

end
